theory Spec2Isabelle
  imports Main "HOL-Library.Sublist" "HOL-Library.AList"
begin

section \<open>Values of the parsed markup\<close>

text \<open>
  \<^verbatim>\<open>xmltodict.parse\<close> turns a document into nested Python values: a dictionary
  (insertion ordered, keys \<^verbatim>\<open>@attr\<close>, \<^verbatim>\<open>#text\<close> and child tag names), a list
  (a tag that repeats), a string (an attribute or a text-only element) or \<^verbatim>\<open>None\<close>
  (an empty element). A dictionary is an association list in insertion order.
\<close>

datatype xml =
    XNone
  | XStr string
  | XDict "(string \<times> xml) list"
  | XList "xml list"

text \<open>The exceptions the renderer can let escape.\<close>

datatype error =
    ParseError
  | KeyError string
  | TypeError
  | AttributeError
  | FileNotFoundError

subsection \<open>The Python operations the renderer uses\<close>

text \<open>\<^verbatim>\<open>v[k]\<close> with a string key: only a dictionary can be subscripted so.\<close>

definition getitem :: "xml \<Rightarrow> string \<Rightarrow> error + xml" where
  "getitem v k =
     (case v of
        XDict kvs \<Rightarrow> (case map_of kvs k of Some x \<Rightarrow> Inr x | None \<Rightarrow> Inl (KeyError k))
      | _ \<Rightarrow> Inl TypeError)"

text \<open>\<^verbatim>\<open>d.get(k)\<close> and \<^verbatim>\<open>d.get(k, None)\<close> on a dictionary.\<close>

definition dict_get :: "(string \<times> xml) list \<Rightarrow> string \<Rightarrow> xml" where
  "dict_get kvs k = (case map_of kvs k of Some x \<Rightarrow> x | None \<Rightarrow> XNone)"

text \<open>\<^verbatim>\<open>v[k] = x\<close> on a dictionary: an existing key keeps its place.\<close>

fun setitem :: "xml \<Rightarrow> string \<Rightarrow> xml \<Rightarrow> xml" where
  "setitem (XDict kvs) k x = XDict (AList.update k x kvs)"
| "setitem v k x = v"

text \<open>The truth value of \<^verbatim>\<open>if style:\<close>.\<close>

fun truthy :: "xml \<Rightarrow> bool" where
  "truthy XNone = False"
| "truthy (XStr s) = (s \<noteq> [])"
| "truthy (XDict kvs) = (kvs \<noteq> [])"
| "truthy (XList xs) = (xs \<noteq> [])"

text \<open>\<^verbatim>\<open>s.split(sep)\<close> for a one-character separator: never an empty list.\<close>

fun py_split :: "char \<Rightarrow> string \<Rightarrow> string list" where
  "py_split sep [] = [] # []"
| "py_split sep (c # cs) =
     (if c = sep then [] # py_split sep cs
      else (case py_split sep cs of w # ws \<Rightarrow> (c # w) # ws | [] \<Rightarrow> [c] # []))"

text \<open>\<^verbatim>\<open>sep.join(xs)\<close>.\<close>

fun py_join :: "string \<Rightarrow> string list \<Rightarrow> string" where
  "py_join sep [] = []"
| "py_join sep [x] = x"
| "py_join sep (x # y # zs) = x @ sep @ py_join sep (y # zs)"

text \<open>
  \<^verbatim>\<open>s.replace(old, new)\<close>: the occurrences of \<open>old\<close> are found from the left and do
  not overlap; an empty \<open>old\<close> matches before every character and at the end.
\<close>

function py_replace :: "string \<Rightarrow> string \<Rightarrow> string \<Rightarrow> string" where
  "py_replace old new s =
     (if old = [] then new @ concat (map (\<lambda>c. c # new) s)
      else if s = [] then []
      else if prefix old s then new @ py_replace old new (drop (length old) s)
      else hd s # py_replace old new (tl s))"
  by pat_completeness auto
termination
  by (relation "measure (\<lambda>(old, new, s). length s)") (auto simp: neq_Nil_conv)

declare py_replace.simps [simp del]

text \<open>A loop whose body may raise: the first exception ends it.\<close>

fun for_each :: "('a \<Rightarrow> error + 'b) \<Rightarrow> 'a list \<Rightarrow> error + 'b list" where
  "for_each f [] = Inr []"
| "for_each f (x # xs) =
     (case f x of
        Inl e \<Rightarrow> Inl e
      | Inr y \<Rightarrow> (case for_each f xs of Inl e \<Rightarrow> Inl e | Inr ys \<Rightarrow> Inr (y # ys)))"

section \<open>The structural recolor\<close>

text \<open>
  The innermost loop of \<^verbatim>\<open>_set_fills_in_color_layer\<close>: the style is split at
  \<^verbatim>\<open>;\<close>, every piece that starts with \<^verbatim>\<open>fill:\<close> becomes \<^verbatim>\<open>fill:\<close> followed by
  the color, and the pieces are joined again.
\<close>

definition processed_style :: "string \<Rightarrow> string list \<Rightarrow> string list" where
  "processed_style color style =
     map (\<lambda>e. if prefix ''fill:'' e then ''fill:'' @ color else e) style"

definition set_fill :: "string \<Rightarrow> string \<Rightarrow> string" where
  "set_fill color style = py_join '';'' (processed_style color (py_split CHR '';'' style))"

text \<open>
  The body of \<^verbatim>\<open>for element in elements\<close>. \<^verbatim>\<open>element.get\<close> exists on a
  dictionary only, and \<^verbatim>\<open>style.split\<close> on a string only.
\<close>

definition recolor_element :: "string \<Rightarrow> xml \<Rightarrow> error + xml" where
  "recolor_element color element =
     (case element of
        XDict kvs \<Rightarrow>
          (let style = dict_get kvs ''@style'' in
           if truthy style then
             (case style of
                XStr s \<Rightarrow> Inr (setitem element ''@style'' (XStr (set_fill color s)))
              | _ \<Rightarrow> Inl AttributeError)
           else Inr element)
      | _ \<Rightarrow> Inl AttributeError)"

text \<open>\<^verbatim>\<open>if not isinstance(elements, list): elements = [elements]\<close>, then the loop.\<close>

definition recolor_elements :: "string \<Rightarrow> xml \<Rightarrow> error + xml" where
  "recolor_elements color elements =
     (case elements of
        XList es \<Rightarrow> map_sum id XList (for_each (recolor_element color) es)
      | _ \<Rightarrow> recolor_element color elements)"

text \<open>The body of \<^verbatim>\<open>for key, elements in layer.items()\<close>.\<close>

definition skipped_key :: "string \<Rightarrow> bool" where
  "skipped_key key = (prefix ''@'' key \<or> prefix ''#'' key)"

definition recolor_item :: "string \<Rightarrow> string \<times> xml \<Rightarrow> error + string \<times> xml" where
  "recolor_item color item =
     (if skipped_key (fst item) then Inr item
      else map_sum id (Pair (fst item)) (recolor_elements color (snd item)))"

definition is_color_layer :: "(string \<times> xml) list \<Rightarrow> bool" where
  "is_color_layer layer =
     (dict_get layer ''@inkscape:label'' = XStr ''color'' \<and>
      dict_get layer ''@inkscape:groupmode'' = XStr ''layer'')"

text \<open>The body of \<^verbatim>\<open>for layer in layers\<close>.\<close>

definition recolor_layer :: "string \<Rightarrow> xml \<Rightarrow> error + xml" where
  "recolor_layer color layer =
     (case layer of
        XDict kvs \<Rightarrow>
          (if is_color_layer kvs then map_sum id XDict (for_each (recolor_item color) kvs)
           else Inr layer)
      | _ \<Rightarrow> Inr layer)"

text \<open>\<^verbatim>\<open>if not isinstance(layers, list): layers = [layers]\<close>, then the loop.\<close>

definition recolor_layers :: "string \<Rightarrow> xml \<Rightarrow> error + xml" where
  "recolor_layers color layers =
     (case layers of
        XList ls \<Rightarrow> map_sum id XList (for_each (recolor_layer color) ls)
      | _ \<Rightarrow> recolor_layer color layers)"

text \<open>
  The part of \<^verbatim>\<open>_set_fills_in_color_layer\<close> after the test of the color. The
  elements are changed in place, inside \<^verbatim>\<open>structure\<close>, which is returned: here the
  changed layers are written back where \<^verbatim>\<open>structure["svg"]["g"]\<close> was read.
\<close>

definition recolor :: "xml \<Rightarrow> string \<Rightarrow> error + xml" where
  "recolor structure color =
     (case getitem structure ''svg'' of
        Inl e \<Rightarrow> Inl e
      | Inr svg \<Rightarrow>
          (case getitem svg ''g'' of
             Inl e \<Rightarrow> Inl e
           | Inr layers \<Rightarrow>
               (case recolor_layers color layers of
                  Inl e \<Rightarrow> Inl e
                | Inr layers' \<Rightarrow>
                    Inr (setitem structure ''svg'' (setitem svg ''g'' layers')))))"

text \<open>
  \<^verbatim>\<open>_set_fills_in_color_layer(svg_string, color)\<close>. The parser is the library's
  \<^verbatim>\<open>xmltodict.parse\<close>, a parameter here; it raises on text that is not a document.
\<close>

definition set_fills_in_color_layer ::
  "(string \<Rightarrow> error + xml) \<Rightarrow> string \<Rightarrow> string option \<Rightarrow> error + xml" where
  "set_fills_in_color_layer parse svg_string color =
     (case parse svg_string of
        Inl e \<Rightarrow> Inl e
      | Inr structure \<Rightarrow>
          (case color of None \<Rightarrow> Inr structure | Some c \<Rightarrow> recolor structure c))"

section \<open>Addressing the nodes of a tree\<close>

text \<open>
  A node of a parsed tree is named by the keys and list positions that lead to it from
  the root; \<open>node_at\<close> reads the node at a path, as a chain of \<^verbatim>\<open>v[k]\<close> and
  \<^verbatim>\<open>v[i]\<close> would, with \<open>None\<close> where the chain breaks.
\<close>

datatype step = Key string | Idx nat

fun node_at :: "xml \<Rightarrow> step list \<Rightarrow> xml option" where
  "node_at v [] = Some v"
| "node_at (XDict kvs) (Key k # p) =
     (case map_of kvs k of Some x \<Rightarrow> node_at x p | None \<Rightarrow> None)"
| "node_at (XList xs) (Idx i # p) = (if i < length xs then node_at (xs ! i) p else None)"
| "node_at v (s # p) = None"

text \<open>
  The elements the loops of the recolor visit, level by level, as paths below the
  value the level works on: the members of a list of elements or the single element;
  under a key of a layer that is neither an attribute nor text; in a layer when it is
  a dictionary labelled \<^verbatim>\<open>color\<close> of group mode \<^verbatim>\<open>layer\<close>; in one of the layers.
\<close>

fun elements_child :: "xml \<Rightarrow> step list \<Rightarrow> bool" where
  "elements_child (XList es) [Idx j] = (j < length es)"
| "elements_child (XList es) p = False"
| "elements_child v p = (p = [])"

fun items_child :: "(string \<times> xml) list \<Rightarrow> step list \<Rightarrow> bool" where
  "items_child kvs (Key k # p) =
     (\<not> skipped_key k \<and>
      (case map_of kvs k of Some v \<Rightarrow> elements_child v p | None \<Rightarrow> False))"
| "items_child kvs p = False"

definition is_layer :: "xml \<Rightarrow> bool" where
  "is_layer layer = (case layer of XDict kvs \<Rightarrow> is_color_layer kvs | _ \<Rightarrow> False)"

definition layer_child :: "xml \<Rightarrow> step list \<Rightarrow> bool" where
  "layer_child layer p =
     (case layer of XDict kvs \<Rightarrow> is_color_layer kvs \<and> items_child kvs p | _ \<Rightarrow> False)"

fun layers_child :: "xml \<Rightarrow> step list \<Rightarrow> bool" where
  "layers_child (XList ls) (Idx i # p) = (i < length ls \<and> layer_child (ls ! i) p)"
| "layers_child (XList ls) p = False"
| "layers_child layer p = layer_child layer p"

text \<open>
  \<open>color_child structure p\<close>: the path \<open>p\<close> leads to a direct child element of a
  color layer of the tree, that is to an element the innermost loop reaches.
\<close>

fun color_child :: "xml \<Rightarrow> step list \<Rightarrow> bool" where
  "color_child structure (Key a # Key b # p) =
     (a = ''svg'' \<and> b = ''g'' \<and>
      (case node_at structure [Key ''svg'', Key ''g''] of
         Some layers \<Rightarrow> layers_child layers p
       | None \<Rightarrow> False))"
| "color_child structure p = False"

text \<open>
  The color layers themselves: the only group, or a member of the list of groups.
\<close>

fun layers_layer :: "xml \<Rightarrow> step list \<Rightarrow> bool" where
  "layers_layer (XList ls) [Idx i] = (i < length ls \<and> is_layer (ls ! i))"
| "layers_layer (XList ls) p = False"
| "layers_layer layer p = (p = [] \<and> is_layer layer)"

fun color_layer_at :: "xml \<Rightarrow> step list \<Rightarrow> bool" where
  "color_layer_at structure [Key a, Key b] =
     (a = ''svg'' \<and> b = ''g'' \<and>
      (case node_at structure [Key ''svg'', Key ''g''] of
         Some layer \<Rightarrow> is_layer layer | None \<Rightarrow> False))"
| "color_layer_at structure [Key a, Key b, Idx i] =
     (a = ''svg'' \<and> b = ''g'' \<and>
      (case node_at structure [Key ''svg'', Key ''g'', Idx i] of
         Some layer \<Rightarrow> is_layer layer | None \<Rightarrow> False))"
| "color_layer_at structure p = False"

text \<open>The place of the elements under one key of a color layer.\<close>

fun child_set_at :: "xml \<Rightarrow> step list \<Rightarrow> bool" where
  "child_set_at t [Key a, Key b, Key k] =
     (color_layer_at t [Key a, Key b] \<and> \<not> skipped_key k)"
| "child_set_at t [Key a, Key b, Idx i, Key k] =
     (color_layer_at t [Key a, Key b, Idx i] \<and> \<not> skipped_key k)"
| "child_set_at t p = False"

text \<open>
  \<open>wrap t p\<close> is the tree \<open>t\<close> with the node at \<open>p\<close> presented as a list of one
  member instead of the member itself; \<open>is_list\<close> is \<^verbatim>\<open>isinstance(v, list)\<close>.
\<close>

fun wrap :: "xml \<Rightarrow> step list \<Rightarrow> xml" where
  "wrap v [] = XList [v]"
| "wrap (XDict kvs) (Key k # p) =
     (case map_of kvs k of
        Some x \<Rightarrow> XDict (AList.update k (wrap x p) kvs)
      | None \<Rightarrow> XDict kvs)"
| "wrap (XList xs) (Idx i # p) =
     (if i < length xs then XList (xs[i := wrap (xs ! i) p]) else XList xs)"
| "wrap v (s # p) = v"

definition is_list :: "xml \<Rightarrow> bool" where
  "is_list v = (case v of XList xs \<Rightarrow> True | _ \<Rightarrow> False)"

text \<open>
  A style is a list of declarations \<^verbatim>\<open>key:value\<close> separated by \<^verbatim>\<open>;\<close>. The key
  of a declaration is the text before its first colon, taken as it stands; a piece
  with no colon has no key. \<open>rewritten c d\<close> is what the specification asks of one
  declaration: \<^verbatim>\<open>fill:\<close> and the color when the key is \<^verbatim>\<open>fill\<close>, the declaration
  itself otherwise.
\<close>

definition decl_key :: "string \<Rightarrow> string option" where
  "decl_key d =
     (if CHR '':'' \<in> set d then Some (takeWhile (\<lambda>x. x \<noteq> CHR '':'') d) else None)"

definition rewritten :: "string \<Rightarrow> string \<Rightarrow> string" where
  "rewritten c d = (if decl_key d = Some ''fill'' then ''fill:'' @ c else d)"

text \<open>
  The trees on which the recolor returns, level by level: every element the loops
  visit is a dictionary whose style is absent, empty or a string (\<^verbatim>\<open>element.get\<close>
  and \<^verbatim>\<open>style.split\<close> exist), and there is something under
  \<^verbatim>\<open>structure["svg"]["g"]\<close>.
\<close>

definition element_ok :: "xml \<Rightarrow> bool" where
  "element_ok element =
     (case element of
        XDict kvs \<Rightarrow>
          (case dict_get kvs ''@style'' of
             XStr s \<Rightarrow> True
           | style \<Rightarrow> \<not> truthy style)
      | _ \<Rightarrow> False)"

definition elements_ok :: "xml \<Rightarrow> bool" where
  "elements_ok elements =
     (case elements of XList es \<Rightarrow> list_all element_ok es | _ \<Rightarrow> element_ok elements)"

definition item_ok :: "string \<times> xml \<Rightarrow> bool" where
  "item_ok item = (if skipped_key (fst item) then True else elements_ok (snd item))"

definition layer_ok :: "xml \<Rightarrow> bool" where
  "layer_ok layer =
     (case layer of
        XDict kvs \<Rightarrow> (if is_color_layer kvs then list_all item_ok kvs else True)
      | _ \<Rightarrow> True)"

definition layers_ok :: "xml \<Rightarrow> bool" where
  "layers_ok layers =
     (case layers of XList ls \<Rightarrow> list_all layer_ok ls | _ \<Rightarrow> layer_ok layers)"

definition recolorable :: "xml \<Rightarrow> bool" where
  "recolorable structure =
     (case node_at structure [Key ''svg'', Key ''g''] of
        Some layers \<Rightarrow> layers_ok layers
      | None \<Rightarrow> False)"

section \<open>The renderer\<close>

record instruction =
  type :: string
  color :: "string option"

record InstructionToSVG =
  instruction_type_to_file_content :: "string \<rightharpoonup> string"

definition init :: InstructionToSVG where
  "init = \<lparr>instruction_type_to_file_content = Map.empty\<rparr>"

definition REPLACE_IN_DEFAULT_SVG :: string where
  "REPLACE_IN_DEFAULT_SVG = ''{instruction.type}''"

text \<open>
  The methods take the object and give back their result with the object as they
  leave it.
\<close>

definition default_instruction_to_svg_dict ::
  "(string \<Rightarrow> error + xml) \<Rightarrow> InstructionToSVG \<Rightarrow> instruction
     \<Rightarrow> (error + xml) \<times> InstructionToSVG" where
  "default_instruction_to_svg_dict parse self instr =
     (let instruction_type = type instr;
          default_type = ''default'';
          rep_str = ''{instruction.type}''
      in case instruction_type_to_file_content self default_type of
           None \<Rightarrow> (Inr (XDict [(''svg'', XStr [])]), self)
         | Some default_svg \<Rightarrow>
             (set_fills_in_color_layer parse
                (py_replace rep_str instruction_type default_svg) (color instr), self))"

definition instruction_to_svg_dict ::
  "(string \<Rightarrow> error + xml) \<Rightarrow> InstructionToSVG \<Rightarrow> instruction
     \<Rightarrow> (error + xml) \<times> InstructionToSVG" where
  "instruction_to_svg_dict parse self instr =
     (case instruction_type_to_file_content self (type instr) of
        Some svg \<Rightarrow> (set_fills_in_color_layer parse svg (color instr), self)
      | None \<Rightarrow> default_instruction_to_svg_dict parse self instr)"

definition has_svg_for_instruction :: "InstructionToSVG \<Rightarrow> instruction \<Rightarrow> bool" where
  "has_svg_for_instruction self instr =
     (instruction_type_to_file_content self (type instr) \<noteq> None)"

text \<open>
  \<^verbatim>\<open>os.path.basename\<close> and \<^verbatim>\<open>os.path.splitext\<close> as \<^verbatim>\<open>posixpath\<close> has them.
  \<^verbatim>\<open>rfind\<close> is the index of the last occurrence of a character, or \<open>-1\<close>;
  \<^verbatim>\<open>splitext\<close> splits at the last dot of the last path component unless only dots
  precede it there.
\<close>

definition rfind :: "char \<Rightarrow> string \<Rightarrow> int" where
  "rfind c s =
     (if c \<in> set s then int (length s) - 1 - int (length (takeWhile (\<lambda>x. x \<noteq> c) (rev s)))
      else - 1)"

definition basename :: "string \<Rightarrow> string" where
  "basename p = drop (nat (rfind CHR ''/'' p + 1)) p"

definition splitext :: "string \<Rightarrow> string \<times> string" where
  "splitext p =
     (let sepIndex = rfind CHR ''/'' p;
          dotIndex = rfind CHR ''.'' p
      in if dotIndex > sepIndex \<and>
            list_ex (\<lambda>c. c \<noteq> CHR ''.'')
              (take (nat (dotIndex - (sepIndex + 1))) (drop (nat (sepIndex + 1)) p))
         then (take (nat dotIndex) p, drop (nat dotIndex) p)
         else (p, []))"

text \<open>
  \<^verbatim>\<open>_process_loaded_object(path)\<close>: the callback of the loader. \<open>read_file\<close> is
  \<^verbatim>\<open>open(path)\<close> followed by \<^verbatim>\<open>file.read()\<close>, which may raise.
\<close>

definition process_loaded_object ::
  "(string \<Rightarrow> error + string) \<Rightarrow> InstructionToSVG \<Rightarrow> string
     \<Rightarrow> (error + unit) \<times> InstructionToSVG" where
  "process_loaded_object read_file self path =
     (let file_name = basename path;
          name = fst (splitext file_name)
      in case read_file path of
           Inl e \<Rightarrow> (Inl e, self)
         | Inr string \<Rightarrow>
             (Inr (),
              self\<lparr>instruction_type_to_file_content :=
                     (instruction_type_to_file_content self)(name \<mapsto> string)\<rparr>))"

section \<open>Documents for the examples\<close>

text \<open>
  A parser given by a table: a listed document has the listed value, every other
  text is refused. The entries of the examples are documents with the value
  \<^verbatim>\<open>xmltodict.parse\<close> gives for them; where a node is compared with the list
  holding it alone, the second parser gives the same value with the node in a list.
\<close>

definition parse_table :: "(string \<times> xml) list \<Rightarrow> string \<Rightarrow> error + xml" where
  "parse_table table s = (case map_of table s of Some t \<Rightarrow> Inr t | None \<Rightarrow> Inl ParseError)"

text \<open>A file system with the listed files only.\<close>

definition read_table :: "(string \<times> string) list \<Rightarrow> string \<Rightarrow> error + string" where
  "read_table files path =
     (case map_of files path of Some s \<Rightarrow> Inr s | None \<Rightarrow> Inl FileNotFoundError)"

text \<open>The documents of the examples, with the trees the parser gives for them.\<close>

definition layer_doc :: "string \<Rightarrow> string" where
  "layer_doc style =
     ''<svg><g inkscape:label=\"color\" inkscape:groupmode=\"layer\"><rect style=\"''
     @ style @ ''\"/></g></svg>''"

definition layer_tree :: "string \<Rightarrow> xml" where
  "layer_tree style =
     XDict [(''svg'', XDict [(''g'',
       XDict [(''@inkscape:label'', XStr ''color''),
              (''@inkscape:groupmode'', XStr ''layer''),
              (''rect'', XDict [(''@style'', XStr style)])])])]"

definition two_groups_doc :: string where
  "two_groups_doc =
     ''<svg><g inkscape:label=\"color\" inkscape:groupmode=\"layer\"><rect style=\"fill:#ff0000;fill-opacity:1\"/></g><g><rect style=\"fill:#ff0000;fill-opacity:1\"/></g></svg>''"

definition two_groups_tree :: "string \<Rightarrow> xml" where
  "two_groups_tree style =
     XDict [(''svg'', XDict [(''g'', XList [
       XDict [(''@inkscape:label'', XStr ''color''),
              (''@inkscape:groupmode'', XStr ''layer''),
              (''rect'', XDict [(''@style'', XStr style)])],
       XDict [(''rect'', XDict [(''@style'', XStr ''fill:#ff0000;fill-opacity:1'')])]])])]"

definition no_group_doc :: string where
  "no_group_doc = ''<svg><rect/></svg>''"

definition no_group_tree :: xml where
  "no_group_tree = XDict [(''svg'', XDict [(''rect'', XNone)])]"

definition title_doc :: string where
  "title_doc =
     ''<svg><g inkscape:label=\"color\" inkscape:groupmode=\"layer\"><title>a</title><rect style=\"fill:red\"/></g></svg>''"

definition title_tree :: xml where
  "title_tree =
     XDict [(''svg'', XDict [(''g'',
       XDict [(''@inkscape:label'', XStr ''color''),
              (''@inkscape:groupmode'', XStr ''layer''),
              (''title'', XStr ''a''),
              (''rect'', XDict [(''@style'', XStr ''fill:red'')])])])]"

definition default_doc :: "string \<Rightarrow> string" where
  "default_doc name = ''<svg><g id=\"'' @ name @ ''\"/></svg>''"

definition default_tree :: "string \<Rightarrow> xml" where
  "default_tree name = XDict [(''svg'', XDict [(''g'', XDict [(''@id'', XStr name)])])]"

section \<open>What the recolor changes\<close>

text \<open>
  Level by level: a value the recolor gives back differs from the one it was given
  only on the way to the style of an element it visits, and at a visited element the
  new value is the one \<open>recolor_element\<close> computes.
\<close>

lemma for_each_nth:
  "for_each f xs = Inr ys \<Longrightarrow> length ys = length xs \<and> (\<forall>i<length xs. f (xs ! i) = Inr (ys ! i))"
proof (induction xs arbitrary: ys)
  case Nil then show ?case by simp
next
  case (Cons x xs)
  then show ?case by (auto split: sum.splits simp: nth_Cons split: nat.splits)
qed

lemma recolor_element_cases:
  assumes "recolor_element c e = Inr e'"
  shows "\<exists>kvs. e = XDict kvs \<and> (e' = e \<or> (\<exists>s. map_of kvs ''@style'' = Some (XStr s) \<and> s \<noteq> [] \<and> e' = XDict (AList.update ''@style'' (XStr (set_fill c s)) kvs)))"
  using assms
  by (auto simp: recolor_element_def dict_get_def Let_def split: xml.splits if_splits option.splits)

lemma recolor_element_node_at:
  assumes "recolor_element c e = Inr e'" and "node_at e' q \<noteq> node_at e q"
  shows "prefix q [Key ''@style'']"
proof -
  from recolor_element_cases [OF assms(1)] obtain kvs where e: "e = XDict kvs"
    and d: "e' = e \<or> (\<exists>s. map_of kvs ''@style'' = Some (XStr s) \<and> s \<noteq> [] \<and> e' = XDict (AList.update ''@style'' (XStr (set_fill c s)) kvs))"
    by blast
  from d assms(2) obtain s where s: "map_of kvs ''@style'' = Some (XStr s)"
    and e': "e' = XDict (AList.update ''@style'' (XStr (set_fill c s)) kvs)" by auto
  show ?thesis
  proof (cases q)
    case Nil then show ?thesis by simp
  next
    case (Cons a r)
    show ?thesis
    proof (cases a)
      case (Idx i) with Cons assms(2) e e' show ?thesis by simp
    next
      case (Key k)
      show ?thesis
      proof (cases "k = ''@style''")
        case False
        with Key Cons assms(2) e e' show ?thesis by (simp add: update_conv')
      next
        case True
        with Key Cons assms(2) e e' s show ?thesis
          by (cases r) (auto simp: update_conv')
      qed
    qed
  qed
qed

lemma recolor_elements_frame:
  assumes "recolor_elements c v = Inr v'" and "node_at v' q \<noteq> node_at v q"
  shows "\<exists>p. elements_child v p \<and> prefix q (p @ [Key ''@style''])"
proof (cases v)
  case (XList es)
  with assms(1) obtain es' where f: "for_each (recolor_element c) es = Inr es'" and v': "v' = XList es'"
    by (auto simp: recolor_elements_def map_sum_def split: sum.splits)
  note n = for_each_nth [OF f]
  show ?thesis
  proof (cases q)
    case Nil
    with assms(2) XList v' have "es' \<noteq> es" by simp
    with n obtain j where "j < length es" by (auto simp: list_eq_iff_nth_eq)
    with XList Nil have "elements_child v [Idx j] \<and> prefix q ([Idx j] @ [Key ''@style''])"
      by simp
    then show ?thesis by blast
  next
    case (Cons a r)
    show ?thesis
    proof (cases a)
      case (Key k) with Cons assms(2) XList v' show ?thesis by simp
    next
      case (Idx j)
      with Cons assms(2) XList v' n have j: "j < length es"
        and d: "node_at (es' ! j) r \<noteq> node_at (es ! j) r"
        by (auto split: if_splits)
      from n j have "recolor_element c (es ! j) = Inr (es' ! j)" by simp
      from recolor_element_node_at [OF this d] have "prefix r [Key ''@style'']" .
      with j XList Idx Cons have "elements_child v [Idx j] \<and> prefix q ([Idx j] @ [Key ''@style''])"
        by simp
      then show ?thesis by blast
    qed
  qed
next
  case XNone
  with assms(1) show ?thesis by (simp add: recolor_elements_def recolor_element_def)
next
  case (XStr s)
  with assms(1) show ?thesis by (simp add: recolor_elements_def recolor_element_def)
next
  case (XDict kvs)
  with assms(1) have "recolor_element c v = Inr v'" by (simp add: recolor_elements_def)
  from recolor_element_node_at [OF this assms(2)] XDict
  have "elements_child v [] \<and> prefix q ([] @ [Key ''@style''])" by simp
  then show ?thesis by blast
qed

lemma recolor_elements_effect:
  assumes "recolor_elements c v = Inr v'" and "elements_child v p"
  shows "\<exists>e e'. node_at v p = Some e \<and> node_at v' p = Some e' \<and> recolor_element c e = Inr e'"
proof (cases v)
  case (XList es)
  with assms(1) obtain es' where f: "for_each (recolor_element c) es = Inr es'" and v': "v' = XList es'"
    by (auto simp: recolor_elements_def map_sum_def split: sum.splits)
  note n = for_each_nth [OF f]
  from assms(2) XList obtain j where p: "p = [Idx j]" and j: "j < length es"
    by (cases "(v, p)" rule: elements_child.cases) auto
  with n XList v' show ?thesis by simp
next
  case XNone
  with assms(1) show ?thesis by (simp add: recolor_elements_def recolor_element_def)
next
  case (XStr s)
  with assms(1) show ?thesis by (simp add: recolor_elements_def recolor_element_def)
next
  case (XDict kvs)
  with assms show ?thesis by (simp add: recolor_elements_def)
qed

lemma recolor_items_map_of:
  assumes "for_each (recolor_item c) kvs = Inr kvs'"
  shows "(map_of kvs k = None \<longrightarrow> map_of kvs' k = None) \<and>
         (\<forall>v. map_of kvs k = Some v \<longrightarrow>
            (\<exists>v'. map_of kvs' k = Some v' \<and> recolor_item c (k, v) = Inr (k, v')))"
  using assms
proof (induction kvs arbitrary: kvs')
  case Nil then show ?case by simp
next
  case (Cons a kvs)
  from Cons.prems obtain b kvs1 where a: "recolor_item c a = Inr b"
    and r: "for_each (recolor_item c) kvs = Inr kvs1" and k': "kvs' = b # kvs1"
    by (auto split: sum.splits)
  from a have fb: "fst b = fst a"
    by (cases a) (auto simp: recolor_item_def map_sum_def split: if_splits sum.splits)
  show ?case
  proof (cases "fst a = k")
    case True
    with a fb k' show ?thesis by (cases a, cases b) auto
  next
    case False
    with Cons.IH [OF r] fb k' show ?thesis by (cases a, cases b) auto
  qed
qed

lemma recolor_items_frame:
  assumes "for_each (recolor_item c) kvs = Inr kvs'"
    and "node_at (XDict kvs') q \<noteq> node_at (XDict kvs) q" and "q \<noteq> []"
  shows "\<exists>p. items_child kvs p \<and> prefix q (p @ [Key ''@style''])"
proof -
  from assms(2,3) obtain k r where q: "q = Key k # r"
    by (cases q; cases "hd q") auto
  note m = recolor_items_map_of [OF assms(1), of k]
  from assms(2) q m obtain v v' where v: "map_of kvs k = Some v" and v': "map_of kvs' k = Some v'"
    and i: "recolor_item c (k, v) = Inr (k, v')" and d: "node_at v' r \<noteq> node_at v r"
    by (cases "map_of kvs k") auto
  from i d have s: "\<not> skipped_key k" and e: "recolor_elements c v = Inr v'"
    by (auto simp: recolor_item_def map_sum_def split: if_splits sum.splits)
  from recolor_elements_frame [OF e d] obtain p where "elements_child v p" "prefix r (p @ [Key ''@style''])"
    by blast
  with s v q have "items_child kvs (Key k # p) \<and> prefix q ((Key k # p) @ [Key ''@style''])" by simp
  then show ?thesis by blast
qed

lemma recolor_items_effect:
  assumes "for_each (recolor_item c) kvs = Inr kvs'" and "items_child kvs p"
  shows "\<exists>e e'. node_at (XDict kvs) p = Some e \<and> node_at (XDict kvs') p = Some e'
           \<and> recolor_element c e = Inr e'"
proof -
  from assms(2) obtain k r v where p: "p = Key k # r" and s: "\<not> skipped_key k"
    and v: "map_of kvs k = Some v" and c: "elements_child v r"
    by (cases "(kvs, p)" rule: items_child.cases) (auto split: option.splits)
  from recolor_items_map_of [OF assms(1), of k] v obtain v' where v': "map_of kvs' k = Some v'"
    and i: "recolor_item c (k, v) = Inr (k, v')" by auto
  from i s have "recolor_elements c v = Inr v'"
    by (auto simp: recolor_item_def map_sum_def split: sum.splits)
  from recolor_elements_effect [OF this c] p v v' show ?thesis by simp
qed


lemma recolor_layer_frame:
  assumes "recolor_layer c l = Inr l'" and "node_at l' q \<noteq> node_at l q"
  shows "is_layer l \<and> (q = [] \<or> (\<exists>p. layer_child l p \<and> prefix q (p @ [Key ''@style''])))"
proof -
  from assms obtain kvs kvs' where l: "l = XDict kvs" and cl: "is_color_layer kvs"
    and f: "for_each (recolor_item c) kvs = Inr kvs'" and l': "l' = XDict kvs'"
    by (cases l) (auto simp: recolor_layer_def map_sum_def split: if_splits sum.splits)
  show ?thesis
  proof (cases "q = []")
    case True with l cl show ?thesis by (simp add: is_layer_def)
  next
    case False
    from recolor_items_frame [OF f _ False] assms(2) l l' cl show ?thesis
      by (simp add: layer_child_def is_layer_def)
  qed
qed

lemma recolor_layer_effect:
  assumes "recolor_layer c l = Inr l'" and "layer_child l p"
  shows "\<exists>e e'. node_at l p = Some e \<and> node_at l' p = Some e' \<and> recolor_element c e = Inr e'"
proof -
  from assms(2) obtain kvs where l: "l = XDict kvs" and cl: "is_color_layer kvs"
    and ic: "items_child kvs p"
    by (cases l) (auto simp: layer_child_def)
  with assms(1) obtain kvs' where f: "for_each (recolor_item c) kvs = Inr kvs'" and l': "l' = XDict kvs'"
    by (auto simp: recolor_layer_def map_sum_def split: sum.splits)
  from recolor_items_effect [OF f ic] l l' show ?thesis by simp
qed

lemma recolor_layers_frame:
  assumes "recolor_layers c ls = Inr ls'" and "node_at ls' q \<noteq> node_at ls q"
  shows "q = [] \<or> layers_layer ls q \<or> (\<exists>p. layers_child ls p \<and> prefix q (p @ [Key ''@style'']))"
proof (cases ls)
  case (XList xs)
  with assms(1) obtain xs' where f: "for_each (recolor_layer c) xs = Inr xs'" and l': "ls' = XList xs'"
    by (auto simp: recolor_layers_def map_sum_def split: sum.splits)
  note n = for_each_nth [OF f]
  show ?thesis
  proof (cases q)
    case Nil then show ?thesis by simp
  next
    case (Cons a r)
    show ?thesis
    proof (cases a)
      case (Key k) with Cons assms(2) XList l' show ?thesis by simp
    next
      case (Idx i)
      with Cons assms(2) XList l' n have i: "i < length xs"
        and d: "node_at (xs' ! i) r \<noteq> node_at (xs ! i) r"
        by (auto split: if_splits)
      from n i have "recolor_layer c (xs ! i) = Inr (xs' ! i)" by simp
      from recolor_layer_frame [OF this d]
      have il: "is_layer (xs ! i)"
        and c: "r = [] \<or> (\<exists>p. layer_child (xs ! i) p \<and> prefix r (p @ [Key ''@style'']))"
        by auto
      from c show ?thesis
      proof
        assume "r = []"
        with il i XList Idx Cons show ?thesis by simp
      next
        assume "\<exists>p. layer_child (xs ! i) p \<and> prefix r (p @ [Key ''@style''])"
        then obtain p where "layer_child (xs ! i) p" "prefix r (p @ [Key ''@style''])" by blast
        with i XList Idx Cons
        have "layers_child ls (Idx i # p) \<and> prefix q ((Idx i # p) @ [Key ''@style''])" by simp
        then show ?thesis by blast
      qed
    qed
  qed
next
  case XNone
  with assms show ?thesis by (simp add: recolor_layers_def recolor_layer_def)
next
  case (XStr s)
  with assms show ?thesis by (simp add: recolor_layers_def recolor_layer_def)
next
  case (XDict kvs)
  with assms(1) have "recolor_layer c ls = Inr ls'" by (simp add: recolor_layers_def)
  from recolor_layer_frame [OF this assms(2)] XDict show ?thesis by auto
qed

lemma recolor_layers_effect:
  assumes "recolor_layers c ls = Inr ls'" and "layers_child ls p"
  shows "\<exists>e e'. node_at ls p = Some e \<and> node_at ls' p = Some e' \<and> recolor_element c e = Inr e'"
proof (cases ls)
  case (XList xs)
  with assms(1) obtain xs' where f: "for_each (recolor_layer c) xs = Inr xs'" and l': "ls' = XList xs'"
    by (auto simp: recolor_layers_def map_sum_def split: sum.splits)
  note n = for_each_nth [OF f]
  from assms(2) XList obtain i r where p: "p = Idx i # r" and i: "i < length xs"
    and lc: "layer_child (xs ! i) r"
    by (cases "(ls, p)" rule: layers_child.cases) auto
  from n i have "recolor_layer c (xs ! i) = Inr (xs' ! i)" by simp
  from recolor_layer_effect [OF this lc] p i n XList l' show ?thesis by simp
next
  case XNone
  with assms show ?thesis by (simp add: layer_child_def)
next
  case (XStr s)
  with assms show ?thesis by (simp add: layer_child_def)
next
  case (XDict kvs)
  with assms have "recolor_layer c ls = Inr ls'" "layer_child ls p"
    by (simp_all add: recolor_layers_def)
  from recolor_layer_effect [OF this] show ?thesis .
qed

lemma recolor_cases:
  assumes "recolor t c = Inr t'"
  shows "\<exists>kvs skvs ls ls'. t = XDict kvs \<and> map_of kvs ''svg'' = Some (XDict skvs)
           \<and> map_of skvs ''g'' = Some ls \<and> recolor_layers c ls = Inr ls'
           \<and> t' = XDict (AList.update ''svg'' (XDict (AList.update ''g'' ls' skvs)) kvs)"
  using assms
  by (auto simp: recolor_def getitem_def split: xml.splits option.splits sum.splits)


lemma node_at_append:
  "node_at v (p @ q) = (case node_at v p of Some x \<Rightarrow> node_at x q | None \<Rightarrow> None)"
  by (induction v p rule: node_at.induct) (auto split: option.splits)

lemma recolor_frame:
  assumes "recolor t c = Inr t'" and "node_at t' q \<noteq> node_at t q"
  shows "prefix q [Key ''svg'', Key ''g''] \<or> color_layer_at t q
       \<or> (\<exists>p. color_child t p \<and> prefix q (p @ [Key ''@style'']))"
proof -
  from recolor_cases [OF assms(1)] obtain kvs skvs ls ls' where t: "t = XDict kvs"
    and svg: "map_of kvs ''svg'' = Some (XDict skvs)" and g: "map_of skvs ''g'' = Some ls"
    and r: "recolor_layers c ls = Inr ls'"
    and t': "t' = XDict (AList.update ''svg'' (XDict (AList.update ''g'' ls' skvs)) kvs)"
    by blast
  have g_at: "node_at t [Key ''svg'', Key ''g''] = Some ls" using t svg g by simp
  show ?thesis
  proof (cases "\<exists>r. q = Key ''svg'' # Key ''g'' # r")
    case True
    then obtain r2 where q: "q = Key ''svg'' # Key ''g'' # r2" by blast
    with assms(2) t t' svg g have d: "node_at ls' r2 \<noteq> node_at ls r2"
      by (simp add: update_conv')
    from recolor_layers_frame [OF r d]
    consider "r2 = []" | "layers_layer ls r2"
      | p where "layers_child ls p" "prefix r2 (p @ [Key ''@style''])" by blast
    then show ?thesis
    proof cases
      case 1 with q show ?thesis by simp
    next
      case 2
      then have "color_layer_at t q"
        using q g_at t svg g 
        by (cases "(ls, r2)" rule: layers_layer.cases) (auto simp: is_layer_def)
      then show ?thesis by simp
    next
      case 3
      with q g_at have "color_child t (Key ''svg'' # Key ''g'' # p)
          \<and> prefix q ((Key ''svg'' # Key ''g'' # p) @ [Key ''@style''])" by simp
      then show ?thesis by blast
    qed
  next
    case False
    have "node_at t' q = node_at t q \<or> prefix q [Key ''svg'', Key ''g'']"
    proof (cases q)
      case Nil then show ?thesis by simp
    next
      case (Cons a r)
      show ?thesis
      proof (cases a)
        case (Idx i) with Cons t t' show ?thesis by simp
      next
        case (Key k)
        show ?thesis
        proof (cases "k = ''svg''")
          case ka: False
          with Key Cons t t' show ?thesis by (simp add: update_conv')
        next
          case ka: True
          show ?thesis
          proof (cases r)
            case Nil with ka Key Cons show ?thesis by simp
          next
            case rc: (Cons b r2)
            show ?thesis
            proof (cases b)
              case (Idx i) with rc ka Key Cons t t' svg show ?thesis by (simp add: update_conv')
            next
              case kb: (Key k2)
              with False rc ka Key Cons have "k2 \<noteq> ''g''" by simp
              with kb rc ka Key Cons t t' svg show ?thesis by (simp add: update_conv')
            qed
          qed
        qed
      qed
    qed
    with assms(2) show ?thesis by simp
  qed
qed

lemma recolor_effect:
  assumes "recolor t c = Inr t'" and "color_child t p"
  shows "\<exists>e e'. node_at t p = Some e \<and> node_at t' p = Some e' \<and> recolor_element c e = Inr e'"
proof -
  from recolor_cases [OF assms(1)] obtain kvs skvs ls ls' where t: "t = XDict kvs"
    and svg: "map_of kvs ''svg'' = Some (XDict skvs)" and g: "map_of skvs ''g'' = Some ls"
    and r: "recolor_layers c ls = Inr ls'"
    and t': "t' = XDict (AList.update ''svg'' (XDict (AList.update ''g'' ls' skvs)) kvs)"
    by blast
  from assms(2) t svg g obtain r2 where p: "p = Key ''svg'' # Key ''g'' # r2"
    and lc: "layers_child ls r2"
    by (cases "(t, p)" rule: color_child.cases) auto
  from recolor_layers_effect [OF r lc] p t t' svg g show ?thesis
    by (simp add: update_conv')
qed

lemma elements_child_keys: "elements_child v p \<Longrightarrow> Key k \<notin> set p"
  by (cases "(v, p)" rule: elements_child.cases) auto

lemma items_child_keys: "items_child kvs p \<Longrightarrow> skipped_key k \<Longrightarrow> Key k \<notin> set p"
  by (cases "(kvs, p)" rule: items_child.cases)
     (auto split: option.splits dest: elements_child_keys)

lemma layer_child_keys: "layer_child l p \<Longrightarrow> skipped_key k \<Longrightarrow> Key k \<notin> set p"
  by (cases l) (auto simp: layer_child_def dest: items_child_keys)

lemma layers_child_keys: "layers_child ls p \<Longrightarrow> skipped_key k \<Longrightarrow> Key k \<notin> set p"
  by (cases "(ls, p)" rule: layers_child.cases) (auto dest: layer_child_keys)

lemma color_child_keys: "color_child t p \<Longrightarrow> skipped_key k \<Longrightarrow> Key k \<notin> set p"
  by (cases "(t, p)" rule: color_child.cases)
     (auto simp: skipped_key_def split: option.splits dest: layers_child_keys)

lemma recolor_frame_attribute:
  assumes "recolor t c = Inr t'" and "skipped_key k" and "\<not> (color_child t p \<and> k = ''@style'')"
  shows "node_at t' (p @ [Key k]) = node_at t (p @ [Key k])"
proof (rule ccontr)
  assume d: "node_at t' (p @ [Key k]) \<noteq> node_at t (p @ [Key k])"
  from assms(2) have k: "k \<noteq> ''svg''" "k \<noteq> ''g''" by (auto simp: skipped_key_def)
  from recolor_frame [OF assms(1) d]
  consider "prefix (p @ [Key k]) [Key ''svg'', Key ''g'']" | "color_layer_at t (p @ [Key k])"
    | p' where "color_child t p'" "prefix (p @ [Key k]) (p' @ [Key ''@style''])" by blast
  then show False
  proof cases
    case 1
    then have "Key k \<in> set [Key ''svg'', Key ''g'']"
      by (metis in_set_conv_decomp prefix_def append.assoc append_Cons)
    with k show False by simp
  next
    case 2
    with k show False
      by (cases "(t, p @ [Key k])" rule: color_layer_at.cases)
         (auto simp: append_eq_Cons_conv)
  next
    case 3
    from 3(2) obtain z where z: "p' @ [Key ''@style''] = p @ [Key k] @ z" by (auto simp: prefix_def)
    show False
    proof (cases z rule: rev_cases)
      case Nil
      with z have "p' = p" "k = ''@style''" by auto
      with 3(1) assms(3) show False by simp
    next
      case (snoc z' a)
      with z have "p' = p @ [Key k] @ z'" by simp
      then have "Key k \<in> set p'" by simp
      with color_child_keys [OF 3(1) assms(2)] show False by simp
    qed
  qed
qed

section \<open>Splitting and joining a style\<close>

lemma decl_key_fill: "decl_key d = Some ''fill'' \<longleftrightarrow> prefix ''fill:'' d"
proof
  assume a: "decl_key d = Some ''fill''"
  then have m: "CHR '':'' \<in> set d" and t: "takeWhile (\<lambda>x. x \<noteq> CHR '':'') d = ''fill''"
    by (auto simp: decl_key_def split: if_splits)
  from m have "dropWhile (\<lambda>x. x \<noteq> CHR '':'') d \<noteq> []" by auto
  then obtain r where "dropWhile (\<lambda>x. x \<noteq> CHR '':'') d = CHR '':'' # r"
    using hd_dropWhile [of "\<lambda>x. x \<noteq> CHR '':''" d]
    by (cases "dropWhile (\<lambda>x. x \<noteq> CHR '':'') d") auto
  with t takeWhile_dropWhile_id [of "\<lambda>x. x \<noteq> CHR '':''" d]
  have "d = ''fill:'' @ r" by simp
  then show "prefix ''fill:'' d" by (simp add: prefix_def)
next
  assume "prefix ''fill:'' d"
  then obtain r where "d = ''fill:'' @ r" by (auto simp: prefix_def)
  then show "decl_key d = Some ''fill''" by (simp add: decl_key_def)
qed

lemma processed_style_rewritten: "processed_style c ds = map (rewritten c) ds"
  by (simp add: processed_style_def rewritten_def decl_key_fill)

lemma py_split_not_Nil: "py_split sep s \<noteq> []"
  by (induction s) (auto split: list.splits)

lemma py_join_split: "py_join [sep] (py_split sep s) = s"
proof (induction s)
  case Nil then show ?case by simp
next
  case (Cons c s)
  obtain x xs where x: "py_split sep s = x # xs"
    using py_split_not_Nil [of sep s] by (cases "py_split sep s") auto
  with Cons show ?case by (cases xs) auto
qed

lemma py_split_no_sep: "sep \<notin> set x \<Longrightarrow> py_split sep x = [x]"
  by (induction x) auto

lemma py_split_append: "sep \<notin> set x \<Longrightarrow> py_split sep (x @ sep # r) = x # py_split sep r"
  by (induction x) auto

lemma py_split_join:
  "xs \<noteq> [] \<Longrightarrow> \<forall>x\<in>set xs. sep \<notin> set x \<Longrightarrow> py_split sep (py_join [sep] xs) = xs"
proof (induction xs)
  case Nil then show ?case by simp
next
  case (Cons x xs)
  show ?case
  proof (cases xs)
    case Nil with Cons.prems show ?thesis by (simp add: py_split_no_sep)
  next
    case (Cons y zs)
    with Cons.IH Cons.prems show ?thesis by (simp add: py_split_append)
  qed
qed

lemma set_fill_unchanged:
  assumes "\<forall>d\<in>set (py_split CHR '';'' s). decl_key d \<noteq> Some ''fill''"
  shows "set_fill c s = s"
proof -
  from assms have "map (rewritten c) (py_split CHR '';'' s) = py_split CHR '';'' s"
    by (simp add: rewritten_def map_idI)
  then show ?thesis
    using py_join_split [of "CHR '';''" s] by (simp add: set_fill_def processed_style_rewritten)
qed

lemma set_fill_split:
  assumes "CHR '';'' \<notin> set c"
  shows "py_split CHR '';'' (set_fill c s) = map (rewritten c) (py_split CHR '';'' s)"
proof -
  have "\<forall>d\<in>set (py_split CHR '';'' s). CHR '';'' \<notin> set d" for s
  proof (induction s)
    case Nil then show ?case by simp
  next
    case (Cons a s)
    then show ?case by (auto split: list.splits)
  qed
  with assms have "\<forall>d\<in>set (map (rewritten c) (py_split CHR '';'' s)). CHR '';'' \<notin> set d"
    by (auto simp: rewritten_def)
  moreover have "map (rewritten c) (py_split CHR '';'' s) \<noteq> []"
    by (simp add: py_split_not_Nil)
  ultimately show ?thesis
    using py_split_join [of "map (rewritten c) (py_split CHR '';'' s)" "CHR '';''"]
    by (simp add: set_fill_def processed_style_rewritten)
qed

lemma set_fills_recolor:
  "parse svg_string = Inr t \<Longrightarrow> set_fills_in_color_layer parse svg_string (Some c) = recolor t c"
  by (simp add: set_fills_in_color_layer_def)

lemma recolor_element_style:
  assumes "recolor_element c e = Inr e'" and "node_at e [Key ''@style''] = Some (XStr s)"
  shows "node_at e' [Key ''@style''] = Some (XStr (if s = [] then s else set_fill c s))
         \<and> (s = [] \<longrightarrow> e' = e)"
  using assms
  by (cases e)
     (auto simp: recolor_element_def dict_get_def Let_def update_conv'
        split: option.splits if_splits xml.splits)

lemmas recolor_defs =
  recolor_def getitem_def recolor_layers_def recolor_layer_def is_color_layer_def
  dict_get_def recolor_item_def skipped_key_def recolor_elements_def recolor_element_def
  set_fill_def processed_style_def

section \<open>When the recolor returns\<close>

text \<open>
  The recolor returns a tree exactly on the trees described by \<open>recolorable\<close>;
  on every other tree it raises.
\<close>

lemma for_each_returns: "\<not> isl (for_each f xs) \<longleftrightarrow> list_all (\<lambda>x. \<not> isl (f x)) xs"
  by (induction xs) (auto split: sum.splits)

lemma map_sum_returns: "isl (map_sum id g x) = isl x"
  by (cases x) auto

lemma recolor_element_returns: "\<not> isl (recolor_element c e) \<longleftrightarrow> element_ok e"
  by (cases e)
     (auto simp: recolor_element_def element_ok_def Let_def split: xml.splits)

lemma recolor_elements_returns: "\<not> isl (recolor_elements c v) \<longleftrightarrow> elements_ok v"
  by (cases v)
     (simp_all add: recolor_elements_def elements_ok_def map_sum_returns for_each_returns
        recolor_element_returns)

lemma recolor_item_returns: "\<not> isl (recolor_item c i) \<longleftrightarrow> item_ok i"
  by (simp add: recolor_item_def item_ok_def map_sum_returns recolor_elements_returns)

lemma recolor_layer_returns: "\<not> isl (recolor_layer c l) \<longleftrightarrow> layer_ok l"
  by (cases l)
     (simp_all add: recolor_layer_def layer_ok_def map_sum_returns for_each_returns
        recolor_item_returns)

lemma recolor_layers_returns: "\<not> isl (recolor_layers c ls) \<longleftrightarrow> layers_ok ls"
  by (cases ls)
     (simp_all add: recolor_layers_def layers_ok_def map_sum_returns for_each_returns
        recolor_layer_returns)

lemma getitem_node_at:
  "(\<exists>svg. getitem t ''svg'' = Inr svg \<and> getitem svg ''g'' = Inr ls)
     \<longleftrightarrow> node_at t [Key ''svg'', Key ''g''] = Some ls"
proof (cases t)
  case (XDict kvs)
  show ?thesis
  proof (cases "map_of kvs ''svg''")
    case None with XDict show ?thesis by (simp add: getitem_def)
  next
    case (Some sv)
    with XDict show ?thesis
      by (cases sv) (auto simp: getitem_def split: option.splits)
  qed
qed (simp_all add: getitem_def)

lemma recolor_returns: "(\<exists>t'. recolor t c = Inr t') \<longleftrightarrow> recolorable t"
proof
  assume "\<exists>t'. recolor t c = Inr t'"
  then obtain svg ls ls' where "getitem t ''svg'' = Inr svg" "getitem svg ''g'' = Inr ls"
    and r: "recolor_layers c ls = Inr ls'"
    by (auto simp: recolor_def split: sum.splits)
  with getitem_node_at [of t ls] have "node_at t [Key ''svg'', Key ''g''] = Some ls" by blast
  with r recolor_layers_returns [of c ls] show "recolorable t"
    by (auto simp: recolorable_def)
next
  assume "recolorable t"
  then obtain ls where n: "node_at t [Key ''svg'', Key ''g''] = Some ls" and "layers_ok ls"
    by (auto simp: recolorable_def split: option.splits)
  with recolor_layers_returns [of c ls] obtain ls' where r: "recolor_layers c ls = Inr ls'"
    by (cases "recolor_layers c ls") auto
  from n getitem_node_at [of t ls] obtain svg where "getitem t ''svg'' = Inr svg"
    "getitem svg ''g'' = Inr ls" by blast
  with r show "\<exists>t'. recolor t c = Inr t'" by (simp add: recolor_def)
qed

section \<open>The scope of the recolor\<close>

text \<open>
  With groups under the root and none of them a color layer, the recolor gives the
  tree back as it is.
\<close>

lemma for_each_unchanged: "\<forall>x\<in>set xs. f x = Inr x \<Longrightarrow> for_each f xs = Inr xs"
  by (induction xs) auto

lemma recolor_layer_other: "\<not> is_layer l \<Longrightarrow> recolor_layer c l = Inr l"
  by (cases l) (auto simp: recolor_layer_def is_layer_def)

lemma recolor_without_color_layer:
  assumes "node_at t [Key ''svg'', Key ''g''] = Some ls"
    and "\<not> is_layer ls" and "\<forall>i. \<not> layers_layer ls [Idx i]"
  shows "recolor t c = Inr t"
proof -
  from assms(1) obtain kvs where t: "t = XDict kvs" by (cases t) auto
  with assms(1) obtain sv where sv: "map_of kvs ''svg'' = Some sv"
    and sg: "node_at sv [Key ''g''] = Some ls"
    by (auto split: option.splits)
  from sg obtain skvs where skvs: "sv = XDict skvs" by (cases sv) auto
  with sg have g: "map_of skvs ''g'' = Some ls" by (auto split: option.splits)
  have "recolor_layers c ls = Inr ls"
  proof (cases ls)
    case (XList xs)
    have "\<forall>x\<in>set xs. recolor_layer c x = Inr x"
    proof
      fix x assume "x \<in> set xs"
      then obtain i where "i < length xs" "xs ! i = x" by (auto simp: in_set_conv_nth)
      with assms(3) XList have "\<not> is_layer x" by auto
      then show "recolor_layer c x = Inr x" by (rule recolor_layer_other)
    qed
    with XList show ?thesis by (simp add: recolor_layers_def for_each_unchanged)
  next
    case XNone then show ?thesis by (simp add: recolor_layers_def recolor_layer_def)
  next
    case (XStr x) then show ?thesis by (simp add: recolor_layers_def recolor_layer_def)
  next
    case (XDict x)
    with assms(2) show ?thesis by (simp add: recolor_layers_def recolor_layer_other)
  qed
  with t sv skvs g show ?thesis
    by (simp add: recolor_def getitem_def update_triv)
qed

text \<open>
  C1. A template with no group at all has no color layer, yet recoloring it is an
  error: for the document \<^verbatim>\<open><svg><rect/></svg>\<close>, parsed as
  \<^verbatim>\<open>{"svg": {"rect": None}}\<close>, there is nothing under \<^verbatim>\<open>structure["svg"]["g"]\<close>,
  and \<^verbatim>\<open>_set_fills_in_color_layer\<close> with the color \<^verbatim>\<open>blue\<close> raises
  \<^verbatim>\<open>KeyError: 'g'\<close>, as does \<^verbatim>\<open>instruction_to_svg_dict\<close> for an instruction of
  a type registered with this template.
\<close>

theorem recolor_without_group_raises:
  "node_at no_group_tree [Key ''svg'', Key ''g''] = None
   \<and> set_fills_in_color_layer (parse_table [(no_group_doc, no_group_tree)]) no_group_doc
        (Some ''blue'') = Inl (KeyError ''g'')
   \<and> fst (instruction_to_svg_dict (parse_table [(no_group_doc, no_group_tree)])
        \<lparr>instruction_type_to_file_content = [''knit'' \<mapsto> no_group_doc]\<rparr>
        \<lparr>type = ''knit'', color = Some ''blue''\<rparr>) = Inl (KeyError ''g'')"
  by (simp add: no_group_tree_def parse_table_def set_fills_in_color_layer_def recolor_def
      getitem_def instruction_to_svg_dict_def)

text \<open>
  C2. When the recolor of a parsed template returns, the tree it returns differs
  from the parse inside color layers only. A node whose value is not the one it had
  is the root, the \<^verbatim>\<open>svg\<close> element or its groups (which hold the layers), a color
  layer, or lies on the way to the style of a direct child element of a color layer.
  In particular the style attribute of every element that is not such a child, an
  element with a fill in an unlabelled sibling group among them, is exactly what it
  was.
\<close>

theorem recolor_scoped_to_color_layers:
  assumes "parse svg_string = Inr t"
    and "set_fills_in_color_layer parse svg_string (Some c) = Inr t'"
  shows "(node_at t' q \<noteq> node_at t q \<longrightarrow>
            prefix q [Key ''svg'', Key ''g''] \<or> color_layer_at t q
            \<or> (\<exists>p. color_child t p \<and> prefix q (p @ [Key ''@style''])))
       \<and> (\<not> color_child t p \<longrightarrow>
            node_at t' (p @ [Key ''@style'']) = node_at t (p @ [Key ''@style'']))"
proof -
  from assms have r: "recolor t c = Inr t'" by (simp add: set_fills_recolor)
  have "skipped_key ''@style''" by (simp add: skipped_key_def)
  with recolor_frame [OF r, of q] recolor_frame_attribute [OF r, of "''@style''" p]
  show ?thesis by blast
qed

theorem recolor_scoped_to_color_layers_witness:
  "set_fills_in_color_layer
     (parse_table [(two_groups_doc, two_groups_tree ''fill:#ff0000;fill-opacity:1'')])
     two_groups_doc (Some ''blue'')
   = Inr (two_groups_tree ''fill:blue;fill-opacity:1'')
   \<and> node_at (two_groups_tree ''fill:blue;fill-opacity:1'')
       [Key ''svg'', Key ''g'', Idx 1, Key ''rect'', Key ''@style'']
     = Some (XStr ''fill:#ff0000;fill-opacity:1'')
   \<and> node_at (two_groups_tree ''fill:blue;fill-opacity:1'')
       [Key ''svg'', Key ''g'', Idx 0, Key ''rect'', Key ''@style'']
     = Some (XStr ''fill:blue;fill-opacity:1'')"
proof -
  let ?t = "two_groups_tree ''fill:#ff0000;fill-opacity:1''"
  let ?t' = "two_groups_tree ''fill:blue;fill-opacity:1''"
  let ?parse = "parse_table [(two_groups_doc, ?t)]"
  have p: "?parse two_groups_doc = Inr ?t" by (simp add: parse_table_def)
  have "recolor ?t ''blue'' = Inr ?t'" by (simp add: two_groups_tree_def recolor_defs)
  with p have r: "set_fills_in_color_layer ?parse two_groups_doc (Some ''blue'') = Inr ?t'"
    by (simp add: set_fills_recolor)
  have n: "\<not> color_child ?t [Key ''svg'', Key ''g'', Idx 1, Key ''rect'']"
    by (simp add: two_groups_tree_def layer_child_def is_color_layer_def dict_get_def)
  have o: "node_at ?t ([Key ''svg'', Key ''g'', Idx 1, Key ''rect''] @ [Key ''@style''])
             = Some (XStr ''fill:#ff0000;fill-opacity:1'')"
    by (simp add: two_groups_tree_def)
  from recolor_scoped_to_color_layers
         [OF p r, of "[]" "[Key ''svg'', Key ''g'', Idx 1, Key ''rect'']"] n o
  have "node_at ?t' [Key ''svg'', Key ''g'', Idx 1, Key ''rect'', Key ''@style'']
          = Some (XStr ''fill:#ff0000;fill-opacity:1'')" by simp
  moreover have "node_at ?t' [Key ''svg'', Key ''g'', Idx 0, Key ''rect'', Key ''@style'']
          = Some (XStr ''fill:blue;fill-opacity:1'')"
    by (simp add: two_groups_tree_def)
  ultimately show ?thesis using r by simp
qed

section \<open>The rewriting of a style\<close>

text \<open>
  C3, as stated, fails in two ways. With the color \<^verbatim>\<open>a;b\<close> the style
  \<^verbatim>\<open>fill:x;stroke:none\<close> becomes \<^verbatim>\<open>fill:a;b;stroke:none\<close>: the declaration
  \<^verbatim>\<open>stroke:none\<close>, second of two, is now third of three, and the fill declaration
  reads \<^verbatim>\<open>fill:a\<close>. And an element with a style in a color layer is not rewritten
  at all when a sibling has neither attributes nor children: beside
  \<^verbatim>\<open><title>a</title>\<close>, parsed as a string, \<^verbatim>\<open>element.get\<close> raises
  \<^verbatim>\<open>AttributeError\<close> and no tree is returned.
\<close>

theorem fill_rewrite_counterexample:
  "set_fills_in_color_layer
     (parse_table [(layer_doc ''fill:x;stroke:none'', layer_tree ''fill:x;stroke:none'')])
     (layer_doc ''fill:x;stroke:none'') (Some ''a;b'')
   = Inr (layer_tree ''fill:a;b;stroke:none'')
   \<and> py_split CHR '';'' ''fill:x;stroke:none'' = [''fill:x'', ''stroke:none'']
   \<and> py_split CHR '';'' ''fill:a;b;stroke:none'' = [''fill:a'', ''b'', ''stroke:none'']
   \<and> color_child title_tree [Key ''svg'', Key ''g'', Key ''rect'']
   \<and> node_at title_tree [Key ''svg'', Key ''g'', Key ''rect'', Key ''@style'']
       = Some (XStr ''fill:red'')
   \<and> set_fills_in_color_layer (parse_table [(title_doc, title_tree)]) title_doc (Some ''blue'')
       = Inl AttributeError"
proof -
  have "recolor (layer_tree ''fill:x;stroke:none'') ''a;b''
          = Inr (layer_tree ''fill:a;b;stroke:none'')"
    by (simp add: layer_tree_def recolor_defs)
  moreover have "recolor title_tree ''blue'' = Inl AttributeError"
    by (simp add: title_tree_def recolor_defs)
  moreover have "color_child title_tree [Key ''svg'', Key ''g'', Key ''rect'']"
    by (simp add: title_tree_def layer_child_def is_color_layer_def dict_get_def
        skipped_key_def)
  moreover have "node_at title_tree [Key ''svg'', Key ''g'', Key ''rect'', Key ''@style'']
       = Some (XStr ''fill:red'')"
    by (simp add: title_tree_def)
  ultimately show ?thesis
    by (simp add: set_fills_in_color_layer_def parse_table_def)
qed

text \<open>
  C3, amended. On a parsed template where every direct child of every color layer
  is a dictionary whose style is absent, empty or a string, and the \<^verbatim>\<open>svg\<close>
  element has groups (these are exactly the templates on which the recolor returns,
  lemma \<open>recolor_returns\<close>), the recolor returns a tree, and in it a direct child
  element of a color layer whose style was a non-empty string has for its style the
  declarations of the old one, each rewritten on its own and joined by \<^verbatim>\<open>;\<close> in
  their order: a declaration whose key is \<^verbatim>\<open>fill\<close> (the text before its first
  colon, as it stands) becomes \<^verbatim>\<open>fill:\<close> followed by the color, at every
  occurrence, and every other one, the empty ones between consecutive semicolons
  included, is the declaration it was. A style with no fill declaration is unchanged
  and gets none. When the color has no semicolon, the declarations of the new style
  are these, one for one, each at the position it had.
\<close>

theorem fill_declarations_rewritten:
  assumes "parse svg_string = Inr t"
    and "recolorable t"
    and "color_child t p"
    and "node_at t (p @ [Key ''@style'']) = Some (XStr s)"
    and "s \<noteq> []"
  shows "\<exists>t' s'. set_fills_in_color_layer parse svg_string (Some c) = Inr t'
           \<and> node_at t' (p @ [Key ''@style'']) = Some (XStr s')
           \<and> s' = py_join '';'' (map (rewritten c) (py_split CHR '';'' s))
           \<and> rewritten c [] = []
           \<and> ((\<forall>d\<in>set (py_split CHR '';'' s). decl_key d \<noteq> Some ''fill'') \<longrightarrow> s' = s)
           \<and> (CHR '';'' \<notin> set c \<longrightarrow>
                py_split CHR '';'' s' = map (rewritten c) (py_split CHR '';'' s))"
proof -
  from assms(2) recolor_returns [of t c] obtain t' where r: "recolor t c = Inr t'" by blast
  with assms(1) have sf: "set_fills_in_color_layer parse svg_string (Some c) = Inr t'"
    by (simp add: set_fills_recolor)
  from recolor_effect [OF r assms(3)] obtain e e' where e: "node_at t p = Some e"
    and e': "node_at t' p = Some e'" and re: "recolor_element c e = Inr e'" by blast
  from assms(4) e have "node_at e [Key ''@style''] = Some (XStr s)"
    by (simp add: node_at_append)
  from recolor_element_style [OF re this] assms(5) e'
  have "node_at t' (p @ [Key ''@style'']) = Some (XStr (set_fill c s))"
    by (simp add: node_at_append)
  moreover have "set_fill c s = py_join '';'' (map (rewritten c) (py_split CHR '';'' s))"
    by (simp add: set_fill_def processed_style_rewritten)
  moreover have "rewritten c [] = []" by (simp add: rewritten_def decl_key_def)
  ultimately show ?thesis
    using sf set_fill_unchanged [of s c] set_fill_split [of c s] by auto
qed

theorem fill_declarations_rewritten_witness:
  "set_fills_in_color_layer
     (parse_table [(layer_doc ''fill:#000000;;stroke:none;fill:red'',
                    layer_tree ''fill:#000000;;stroke:none;fill:red'')])
     (layer_doc ''fill:#000000;;stroke:none;fill:red'') (Some ''#ff00ff'')
   = Inr (layer_tree ''fill:#ff00ff;;stroke:none;fill:#ff00ff'')
   \<and> node_at (layer_tree ''fill:#ff00ff;;stroke:none;fill:#ff00ff'')
       [Key ''svg'', Key ''g'', Key ''rect'', Key ''@style'']
     = Some (XStr (py_join '';'' [''fill:#ff00ff'', [], ''stroke:none'', ''fill:#ff00ff'']))
   \<and> py_split CHR '';'' ''fill:#ff00ff;;stroke:none;fill:#ff00ff''
     = [''fill:#ff00ff'', [], ''stroke:none'', ''fill:#ff00ff'']"
proof -
  let ?s = "''fill:#000000;;stroke:none;fill:red''"
  let ?t = "layer_tree ?s"
  let ?t' = "layer_tree ''fill:#ff00ff;;stroke:none;fill:#ff00ff''"
  let ?parse = "parse_table [(layer_doc ?s, ?t)]"
  let ?p = "[Key ''svg'', Key ''g'', Key ''rect'']"
  have p: "?parse (layer_doc ?s) = Inr ?t" by (simp add: parse_table_def)
  have ok: "recolorable ?t"
    by (simp add: recolorable_def layer_tree_def layers_ok_def layer_ok_def
        is_color_layer_def dict_get_def item_ok_def skipped_key_def elements_ok_def
        element_ok_def)
  have c: "color_child ?t ?p"
    by (simp add: layer_tree_def layer_child_def is_color_layer_def dict_get_def
        skipped_key_def)
  have n: "node_at ?t (?p @ [Key ''@style'']) = Some (XStr ?s)" by (simp add: layer_tree_def)
  have e: "?s \<noteq> []" by simp
  have m: "map (rewritten ''#ff00ff'') (py_split CHR '';'' ?s)
             = [''fill:#ff00ff'', [], ''stroke:none'', ''fill:#ff00ff'']"
    by (simp add: rewritten_def decl_key_def)
  have "recolor ?t ''#ff00ff'' = Inr ?t'" by (simp add: layer_tree_def recolor_defs)
  with p have r: "set_fills_in_color_layer ?parse (layer_doc ?s) (Some ''#ff00ff'') = Inr ?t'"
    by (simp add: set_fills_recolor)
  from fill_declarations_rewritten
         [where parse = ?parse and svg_string = "layer_doc ?s" and t = ?t and p = ?p
            and s = ?s and c = "''#ff00ff''", OF p ok c n e] r m
  have "node_at ?t' (?p @ [Key ''@style''])
          = Some (XStr (py_join '';'' [''fill:#ff00ff'', [], ''stroke:none'', ''fill:#ff00ff'']))
        \<and> py_split CHR '';'' (py_join '';'' [''fill:#ff00ff'', [], ''stroke:none'', ''fill:#ff00ff''])
          = [''fill:#ff00ff'', [], ''stroke:none'', ''fill:#ff00ff'']"
    by auto
  with r show ?thesis by simp
qed

text \<open>
  C10. When the recolor returns, a direct child element of a color layer whose
  style attribute is the empty string is the element it was, whole: the empty style
  is not split and joined, and no fill is added.
\<close>

theorem empty_style_untouched:
  assumes "parse svg_string = Inr t"
    and "set_fills_in_color_layer parse svg_string (Some c) = Inr t'"
    and "color_child t p"
    and "node_at t (p @ [Key ''@style'']) = Some (XStr [])"
  shows "node_at t' p = node_at t p"
proof -
  from assms(1,2) have r: "recolor t c = Inr t'" by (simp add: set_fills_recolor)
  from recolor_effect [OF r assms(3)] obtain e e' where e: "node_at t p = Some e"
    and e': "node_at t' p = Some e'" and re: "recolor_element c e = Inr e'" by blast
  from assms(4) e have "node_at e [Key ''@style''] = Some (XStr [])"
    by (simp add: node_at_append)
  from recolor_element_style [OF re this] e e' show ?thesis by simp
qed

theorem empty_style_untouched_witness:
  "set_fills_in_color_layer (parse_table [(layer_doc [], layer_tree [])]) (layer_doc [])
     (Some ''blue'') = Inr (layer_tree [])
   \<and> node_at (layer_tree []) [Key ''svg'', Key ''g'', Key ''rect'']
     = Some (XDict [(''@style'', XStr [])])"
proof -
  let ?t = "layer_tree []"
  let ?parse = "parse_table [(layer_doc [], ?t)]"
  let ?p = "[Key ''svg'', Key ''g'', Key ''rect'']"
  have p: "?parse (layer_doc []) = Inr ?t" by (simp add: parse_table_def)
  have "recolor ?t ''blue'' = Inr ?t" by (simp add: layer_tree_def recolor_defs)
  with p have r: "set_fills_in_color_layer ?parse (layer_doc []) (Some ''blue'') = Inr ?t"
    by (simp add: set_fills_recolor)
  have c: "color_child ?t ?p"
    by (simp add: layer_tree_def layer_child_def is_color_layer_def dict_get_def
        skipped_key_def)
  have n: "node_at ?t (?p @ [Key ''@style'']) = Some (XStr [])" by (simp add: layer_tree_def)
  have "node_at ?t ?p = Some (XDict [(''@style'', XStr [])])" by (simp add: layer_tree_def)
  with empty_style_untouched [OF p r c n] r show ?thesis by simp
qed

section \<open>One node or a list of one\<close>

lemma recolor_elements_wrap:
  assumes "\<not> is_list v"
  shows "recolor_elements c (XList [v]) = map_sum id (\<lambda>v'. XList [v']) (recolor_elements c v)"
  using assms
  by (cases v) (auto simp: recolor_elements_def is_list_def map_sum_def split: sum.splits)

lemma recolor_items_wrap:
  assumes "map_of kvs k = Some v" and "\<not> is_list v" and "\<not> skipped_key k"
  shows "for_each (recolor_item c) (AList.update k (XList [v]) kvs)
       = map_sum id (\<lambda>kvs'. AList.update k (XList [the (map_of kvs' k)]) kvs')
           (for_each (recolor_item c) kvs)"
  using assms
proof (induction kvs)
  case Nil then show ?case by simp
next
  case (Cons a kvs)
  show ?case
  proof (cases "fst a = k")
    case True
    with Cons.prems have a: "a = (k, v)" by (cases a) auto
    show ?thesis
      using Cons.prems(2,3) recolor_elements_wrap [OF Cons.prems(2), of c]
      by (auto simp: a recolor_item_def map_sum_def split: sum.splits)
  next
    case False
    with Cons.prems have m: "map_of kvs k = Some v" by (cases a) auto
    note ih = Cons.IH [OF m Cons.prems(2,3)]
    show ?thesis
    proof (cases "recolor_item c a")
      case (Inl e)
      with False show ?thesis by simp
    next
      case (Inr b)
      then have "fst b = fst a"
        by (cases a) (auto simp: recolor_item_def map_sum_def split: if_splits sum.splits)
      with False Inr ih show ?thesis
        by (cases "for_each (recolor_item c) kvs") (auto simp: map_sum_def)
    qed
  qed
qed

lemma is_color_layer_update:
  "\<not> skipped_key k \<Longrightarrow> is_color_layer (AList.update k x kvs) = is_color_layer kvs"
  by (auto simp: is_color_layer_def dict_get_def update_conv' skipped_key_def)

lemma recolor_layer_wrap:
  assumes "is_layer l" and "node_at l [Key k] = Some v" and "\<not> is_list v" and "\<not> skipped_key k"
  shows "recolor_layer c (wrap l [Key k]) = map_sum id (\<lambda>l'. wrap l' [Key k]) (recolor_layer c l)"
proof -
  from assms(1) obtain kvs where l: "l = XDict kvs" and cl: "is_color_layer kvs"
    by (cases l) (auto simp: is_layer_def)
  from assms(2) l have m: "map_of kvs k = Some v" by (auto split: option.splits)
  show ?thesis
  proof (cases "for_each (recolor_item c) kvs")
    case (Inl e)
    with recolor_items_wrap [OF m assms(3,4), of c] l cl m assms(4) show ?thesis
      by (simp add: recolor_layer_def is_color_layer_update)
  next
    case (Inr kvs')
    from recolor_items_map_of [OF Inr, of k] m obtain v' where "map_of kvs' k = Some v'" by auto
    with Inr recolor_items_wrap [OF m assms(3,4), of c] l cl m assms(4) show ?thesis
      by (simp add: recolor_layer_def is_color_layer_update)
  qed
qed

lemma for_each_list_update:
  assumes "i < length xs" and "f y = map_sum id g (f (xs ! i))"
  shows "for_each f (xs[i := y]) = map_sum id (\<lambda>ys. ys[i := g (ys ! i)]) (for_each f xs)"
  using assms
proof (induction xs arbitrary: i)
  case Nil then show ?case by simp
next
  case (Cons x xs)
  show ?case
  proof (cases i)
    case 0
    with Cons.prems show ?thesis by (auto simp: map_sum_def split: sum.splits)
  next
    case (Suc j)
    with Cons.prems Cons.IH [of j] show ?thesis by (auto simp: map_sum_def split: sum.splits)
  qed
qed

lemma recolor_layers_wrap_child:
  assumes "layers_layer ls lp" and "node_at ls (lp @ [Key k]) = Some v"
    and "\<not> is_list v" and "\<not> skipped_key k"
  shows "recolor_layers c (wrap ls (lp @ [Key k]))
       = map_sum id (\<lambda>ls'. wrap ls' (lp @ [Key k])) (recolor_layers c ls)"
proof (cases ls)
  case (XList xs)
  with assms(1) obtain i where lp: "lp = [Idx i]" and i: "i < length xs" and il: "is_layer (xs ! i)"
    by (cases "(ls, lp)" rule: layers_layer.cases) auto
  from assms(2) XList lp i have n: "node_at (xs ! i) [Key k] = Some v" by simp
  note w = recolor_layer_wrap [OF il n assms(3,4), of c]
  show ?thesis
  proof (cases "for_each (recolor_layer c) xs")
    case (Inl e)
    with for_each_list_update [OF i w] XList lp i show ?thesis
      by (simp add: recolor_layers_def)
  next
    case (Inr xs')
    from for_each_nth [OF Inr] have "length xs' = length xs" by simp
    with Inr for_each_list_update [OF i w] XList lp i show ?thesis
      by (simp add: recolor_layers_def)
  qed
next
  case XNone with assms(1) show ?thesis by (simp add: is_layer_def)
next
  case (XStr s) with assms(1) show ?thesis by (simp add: is_layer_def)
next
  case (XDict kvs)
  with assms(1) have lp: "lp = []" and il: "is_layer ls" by simp_all
  from assms(2) lp have n: "node_at ls [Key k] = Some v" by simp
  have d: "\<exists>kvs2. wrap ls [Key k] = XDict kvs2" using XDict by (simp split: option.splits)
  have r: "recolor_layer c ls = Inr l' \<Longrightarrow> \<exists>kvs'. l' = XDict kvs'" for l'
    using XDict by (auto simp: recolor_layer_def map_sum_def split: if_splits sum.splits)
  from d obtain kvs2 where kvs2: "wrap ls [Key k] = XDict kvs2" by blast
  have "recolor_layers c (wrap ls [Key k]) = recolor_layer c (wrap ls [Key k])"
    by (simp add: kvs2 recolor_layers_def)
  also have "\<dots> = map_sum id (\<lambda>l'. wrap l' [Key k]) (recolor_layer c ls)"
    by (rule recolor_layer_wrap [OF il n assms(3,4)])
  also have "recolor_layer c ls = recolor_layers c ls"
    using XDict by (simp add: recolor_layers_def)
  finally show ?thesis using lp by (simp add: id_def)
qed

lemma recolor_layers_wrap_group:
  assumes "\<not> is_list ls"
  shows "recolor_layers c (wrap ls []) = map_sum id (\<lambda>ls'. wrap ls' []) (recolor_layers c ls)"
  using assms
  by (cases ls) (auto simp: recolor_layers_def is_list_def map_sum_def split: sum.splits)

lemma recolor_wrap_layers:
  assumes "node_at t [Key ''svg'', Key ''g''] = Some ls"
    and "recolor_layers c (wrap ls r) = map_sum id (\<lambda>ls'. wrap ls' r) (recolor_layers c ls)"
  shows "recolor (wrap t (Key ''svg'' # Key ''g'' # r)) c
       = map_sum id (\<lambda>t'. wrap t' (Key ''svg'' # Key ''g'' # r)) (recolor t c)"
proof -
  from assms(1) obtain kvs where t: "t = XDict kvs" by (cases t) auto
  with assms(1) obtain s where s: "map_of kvs ''svg'' = Some s"
    and sg: "node_at s [Key ''g''] = Some ls"
    by (auto split: option.splits)
  from sg obtain skvs where skvs: "s = XDict skvs" by (cases s) auto
  with sg s have svg: "map_of kvs ''svg'' = Some (XDict skvs)"
    and g: "map_of skvs ''g'' = Some ls"
    by (auto split: option.splits)
  show ?thesis
    using assms(2)
    by (cases "recolor_layers c ls")
       (simp_all add: t svg g recolor_def getitem_def update_conv' map_sum_def)
qed


lemma child_set_at_layers:
  assumes "child_set_at t p"
  shows "\<exists>ls lp k. p = Key ''svg'' # Key ''g'' # lp @ [Key k] \<and> \<not> skipped_key k
           \<and> node_at t [Key ''svg'', Key ''g''] = Some ls \<and> layers_layer ls lp"
proof (cases "(t, p)" rule: child_set_at.cases)
  case (1 t' a b k)
  with assms obtain l where "node_at t [Key ''svg'', Key ''g''] = Some l" "is_layer l"
    and p: "p = [Key ''svg'', Key ''g'', Key k]" "\<not> skipped_key k"
    by (auto split: option.splits)
  moreover from this have "layers_layer l []" by (cases l) (auto simp: is_layer_def)
  ultimately show ?thesis by auto
next
  case (2 t' a b i k)
  with assms obtain l where l: "node_at t [Key ''svg'', Key ''g'', Idx i] = Some l" "is_layer l"
    and p: "p = [Key ''svg'', Key ''g'', Idx i, Key k]" "\<not> skipped_key k"
    by (auto split: option.splits)
  from l(1) obtain ls where ls: "node_at t [Key ''svg'', Key ''g''] = Some ls"
    and li: "node_at ls [Idx i] = Some l"
    using node_at_append [of t "[Key ''svg'', Key ''g'']" "[Idx i]"]
    by (auto split: option.splits)
  from li l(2) have "layers_layer ls [Idx i]"
    by (cases ls) (auto split: if_splits)
  with ls p show ?thesis by auto
qed (use assms in auto)

text \<open>
  C7. Whether the parser presents a node as itself or as a list holding it alone
  makes no difference to the recolor, for the group under the \<^verbatim>\<open>svg\<close> element and
  for the element under a key of a color layer: on the tree with the list of one the
  recolor raises the same error or returns the same tree, with the list of one in
  the same place.
\<close>

theorem singleton_same_as_one_element_list:
  assumes "parse1 doc = Inr t" and "parse2 doc = Inr (wrap t p)"
    and "node_at t p = Some v" and "\<not> is_list v"
    and "p = [Key ''svg'', Key ''g''] \<or> child_set_at t p"
  shows "set_fills_in_color_layer parse2 doc (Some c)
       = map_sum id (\<lambda>t'. wrap t' p) (set_fills_in_color_layer parse1 doc (Some c))"
proof -
  have "recolor (wrap t p) c = map_sum id (\<lambda>t'. wrap t' p) (recolor t c)"
    using assms(5)
  proof
    assume p: "p = [Key ''svg'', Key ''g'']"
    from recolor_wrap_layers [OF _ recolor_layers_wrap_group [OF assms(4)], of t c] assms(3) p
    show ?thesis by simp
  next
    assume "child_set_at t p"
    from child_set_at_layers [OF this] obtain ls lp k
      where p: "p = Key ''svg'' # Key ''g'' # lp @ [Key k]" and k: "\<not> skipped_key k"
        and ls: "node_at t [Key ''svg'', Key ''g''] = Some ls" and ll: "layers_layer ls lp"
      by blast
    from assms(3) p ls have "node_at ls (lp @ [Key k]) = Some v"
      using node_at_append [of t "[Key ''svg'', Key ''g'']" "lp @ [Key k]"] by simp
    from recolor_wrap_layers [OF ls recolor_layers_wrap_child [OF ll this assms(4) k]] p
    show ?thesis by simp
  qed
  with assms(1,2) show ?thesis by (simp add: set_fills_recolor)
qed

theorem singleton_same_as_one_element_list_witness:
  "set_fills_in_color_layer
     (parse_table [(layer_doc ''fill:red'', wrap (layer_tree ''fill:red'') [Key ''svg'', Key ''g''])])
     (layer_doc ''fill:red'') (Some ''blue'')
   = Inr (wrap (layer_tree ''fill:blue'') [Key ''svg'', Key ''g''])
   \<and> set_fills_in_color_layer
     (parse_table [(layer_doc ''fill:red'',
                    wrap (layer_tree ''fill:red'') [Key ''svg'', Key ''g'', Key ''rect''])])
     (layer_doc ''fill:red'') (Some ''blue'')
   = Inr (wrap (layer_tree ''fill:blue'') [Key ''svg'', Key ''g'', Key ''rect''])"
proof -
  let ?t = "layer_tree ''fill:red''"
  let ?doc = "layer_doc ''fill:red''"
  let ?g = "[Key ''svg'', Key ''g'']"
  let ?r = "[Key ''svg'', Key ''g'', Key ''rect'']"
  have p1: "parse_table [(?doc, ?t)] ?doc = Inr ?t" by (simp add: parse_table_def)
  have pg: "parse_table [(?doc, wrap ?t ?g)] ?doc = Inr (wrap ?t ?g)"
    by (simp add: parse_table_def)
  have pr: "parse_table [(?doc, wrap ?t ?r)] ?doc = Inr (wrap ?t ?r)"
    by (simp add: parse_table_def)
  have "recolor ?t ''blue'' = Inr (layer_tree ''fill:blue'')"
    by (simp add: layer_tree_def recolor_defs)
  with p1 have r: "set_fills_in_color_layer (parse_table [(?doc, ?t)]) ?doc (Some ''blue'')
      = Inr (layer_tree ''fill:blue'')"
    by (simp add: set_fills_recolor)
  have ng: "node_at ?t ?g = Some (XDict [(''@inkscape:label'', XStr ''color''),
              (''@inkscape:groupmode'', XStr ''layer''),
              (''rect'', XDict [(''@style'', XStr ''fill:red'')])])"
    by (simp add: layer_tree_def)
  have lg: "\<not> is_list (XDict [(''@inkscape:label'', XStr ''color''),
              (''@inkscape:groupmode'', XStr ''layer''),
              (''rect'', XDict [(''@style'', XStr ''fill:red'')])])"
    by (simp add: is_list_def)
  have cg: "?g = [Key ''svg'', Key ''g''] \<or> child_set_at ?t ?g" by simp
  have nr: "node_at ?t ?r = Some (XDict [(''@style'', XStr ''fill:red'')])"
    by (simp add: layer_tree_def)
  have lr: "\<not> is_list (XDict [(''@style'', XStr ''fill:red'')])" by (simp add: is_list_def)
  have cr: "?r = [Key ''svg'', Key ''g''] \<or> child_set_at ?t ?r"
    by (simp add: layer_tree_def is_layer_def is_color_layer_def dict_get_def skipped_key_def)
  note g = singleton_same_as_one_element_list
    [where ?parse1.0 = "parse_table [(?doc, ?t)]" and ?parse2.0 = "parse_table [(?doc, wrap ?t ?g)]"
       and doc = ?doc and t = ?t and p = ?g and c = "''blue''", OF p1 pg ng lg cg]
  note c = singleton_same_as_one_element_list
    [where ?parse1.0 = "parse_table [(?doc, ?t)]" and ?parse2.0 = "parse_table [(?doc, wrap ?t ?r)]"
       and doc = ?doc and t = ?t and p = ?r and c = "''blue''", OF p1 pr nr lr cr]
  from g c r show ?thesis by simp
qed

section \<open>The default template\<close>

text \<open>
  \<^verbatim>\<open>str.replace\<close> on a text written as segments joined by a token: where the
  token starts with a character that does not come back in it, as the brace of
  \<^verbatim>\<open>{instruction.type}\<close>, and the segments hold no token, the result is the
  segments joined by the new text. Every text can be written so.
\<close>

lemma py_replace_skip:
  "old \<noteq> [] \<Longrightarrow> \<not> prefix old (a # s) \<Longrightarrow> py_replace old new (a # s) = a # py_replace old new s"
  by (subst py_replace.simps) simp

lemma py_replace_match:
  "old \<noteq> [] \<Longrightarrow> py_replace old new (old @ r) = new @ py_replace old new r"
  by (subst py_replace.simps) simp

lemma py_replace_absent:
  assumes "old \<noteq> []" and "\<not> sublist old s"
  shows "py_replace old new s = s"
  using assms(2)
proof (induction s)
  case Nil
  with assms(1) show ?case by (simp add: py_replace.simps)
next
  case (Cons a s)
  then have "\<not> prefix old (a # s)" "\<not> sublist old s"
    by (auto simp: sublist_Cons_right)
  with Cons.IH assms(1) show ?case by (simp add: py_replace_skip)
qed

lemma prefix_before_fresh:
  assumes "prefix body (s @ x # r)" and "x \<notin> set body"
  shows "prefix body s"
proof -
  from assms(1) consider "prefix body s" | us where "body = s @ us" "prefix us (x # r)"
    by (auto simp: prefix_append)
  then show ?thesis
  proof cases
    case 1 then show ?thesis .
  next
    case 2
    with assms(2) show ?thesis by (cases us) auto
  qed
qed

lemma py_replace_first:
  assumes "b \<notin> set body" and "\<not> sublist (b # body) s"
  shows "py_replace (b # body) new (s @ (b # body) @ r) = s @ new @ py_replace (b # body) new r"
  using assms(2)
proof (induction s)
  case Nil
  show ?case using py_replace_match [of "b # body" new r] by simp
next
  case (Cons a s)
  have np: "\<not> prefix (b # body) (a # (s @ (b # body) @ r))"
  proof
    assume "prefix (b # body) (a # (s @ (b # body) @ r))"
    then have "a = b" and "prefix body (s @ b # body @ r)" by auto
    from prefix_before_fresh [OF this(2) assms(1)] \<open>a = b\<close>
    have "prefix (b # body) (a # s)" by simp
    with Cons.prems show False by (auto dest: prefix_imp_sublist)
  qed
  from Cons.prems have "\<not> sublist (b # body) s" by (auto simp: sublist_Cons_right)
  from Cons.IH [OF this] py_replace_skip [OF _ np, of new] show ?case by simp
qed

lemma py_replace_join:
  assumes "b \<notin> set body" and "\<forall>s\<in>set segs. \<not> sublist (b # body) s"
  shows "py_replace (b # body) new (py_join (b # body) segs) = py_join new segs"
  using assms(2)
proof (induction segs)
  case Nil
  show ?case by (simp add: py_replace.simps)
next
  case (Cons x segs)
  show ?case
  proof (cases segs)
    case Nil
    with Cons.prems show ?thesis by (simp add: py_replace_absent)
  next
    case (Cons y zs)
    with Cons.IH Cons.prems py_replace_first [OF assms(1), of x new "py_join (b # body) (y # zs)"]
    show ?thesis by simp
  qed
qed

lemma py_join_set: "set (py_join sep segs) \<subseteq> set sep \<union> \<Union>(set ` set segs)"
  by (induction sep segs rule: py_join.induct) auto

lemma exists_segments:
  assumes "old \<noteq> []"
  shows "\<exists>segs. segs \<noteq> [] \<and> s = py_join old segs \<and> (\<forall>x\<in>set segs. \<not> sublist old x)"
proof (induction s rule: length_induct)
  case (1 s)
  show ?case
  proof (cases "sublist old s")
    case False
    then have "[s] \<noteq> [] \<and> s = py_join old [s] \<and> (\<forall>x\<in>set [s]. \<not> sublist old x)" by simp
    then show ?thesis by blast
  next
    case True
    define P where "P n \<longleftrightarrow> (\<exists>ps ss. s = ps @ old @ ss \<and> length ps = n)" for n
    from True have "\<exists>n. P n" by (auto simp: sublist_def P_def)
    then obtain n where n: "P n" and least: "\<forall>m<n. \<not> P m"
      using exists_least_iff [of P] by auto
    from n obtain ps ss where s: "s = ps @ old @ ss" and l: "length ps = n"
      by (auto simp: P_def)
    have free: "\<not> sublist old ps"
    proof
      assume "sublist old ps"
      then obtain ps' ss' where "ps = ps' @ old @ ss'" by (auto simp: sublist_def)
      with s l assms have "P (length ps')" "length ps' < n"
        by (auto simp: P_def)
      with least show False by blast
    qed
    from s assms have "length ss < length s" by (cases old) auto
    with 1 obtain segs where segs: "segs \<noteq> []" "ss = py_join old segs"
      "\<forall>x\<in>set segs. \<not> sublist old x" by blast
    from segs(1) obtain y zs where "segs = y # zs" by (cases segs) auto
    with s segs free
    have "ps # segs \<noteq> [] \<and> s = py_join old (ps # segs) \<and> (\<forall>x\<in>set (ps # segs). \<not> sublist old x)"
      by simp
    then show ?thesis by blast
  qed
qed

lemma not_sublist_fresh: "b \<notin> set s \<Longrightarrow> \<not> sublist (b # body) s"
  by (auto dest: set_mono_sublist)

text \<open>
  C6, as stated, fails: the text that is parsed can still hold the token. With the
  default template \<^verbatim>\<open><svg><g id="{instruction.type}"/></svg>\<close> and an instruction
  whose type is the text \<^verbatim>\<open>{instruction.type}\<close> itself, the substitution gives the
  template back, token included, and the tree returned has the token as the value
  of the attribute.
\<close>

theorem placeholder_remains_counterexample:
  "py_replace ''{instruction.type}'' ''{instruction.type}'' (default_doc ''{instruction.type}'')
     = default_doc ''{instruction.type}''
   \<and> sublist ''{instruction.type}''
       (py_replace ''{instruction.type}'' ''{instruction.type}''
          (default_doc ''{instruction.type}''))
   \<and> fst (default_instruction_to_svg_dict
        (parse_table [(default_doc ''{instruction.type}'', default_tree ''{instruction.type}'')])
        \<lparr>instruction_type_to_file_content =
           [''default'' \<mapsto> default_doc ''{instruction.type}'']\<rparr>
        \<lparr>type = ''{instruction.type}'', color = None\<rparr>)
     = Inr (default_tree ''{instruction.type}'')"
proof -
  let ?tok = "''{instruction.type}''"
  have d: "default_doc ?tok = py_join ?tok [''<svg><g id=\"'', ''\"/></svg>'']"
    by (simp add: default_doc_def)
  have f: "\<forall>s\<in>set [''<svg><g id=\"'', ''\"/></svg>'']. \<not> sublist ?tok s"
    by (simp add: not_sublist_fresh)
  have "py_replace ?tok ?tok (py_join ?tok [''<svg><g id=\"'', ''\"/></svg>''])
          = py_join ?tok [''<svg><g id=\"'', ''\"/></svg>'']"
    by (rule py_replace_join [OF _ f]) simp
  with d have r: "py_replace ?tok ?tok (default_doc ?tok) = default_doc ?tok" by simp
  have s: "sublist ?tok (default_doc ?tok)"
    unfolding default_doc_def by (rule sublist_appendI)
  from r s show ?thesis
    by (simp add: default_instruction_to_svg_dict_def parse_table_def
        set_fills_in_color_layer_def)
qed

text \<open>
  C6, amended. For every instruction and every default template, written as
  segments that hold no token joined by the token \<^verbatim>\<open>{instruction.type}\<close>, the
  default rendering path parses the same segments joined by the type of the
  instruction, so that every occurrence of the token in the raw text is replaced, one
  inside an attribute value as any other, and applies the recolor with the color of
  the instruction to the parse; \<^verbatim>\<open>instruction_to_svg_dict\<close> does the same for a type
  with no template of its own. No token is left in the text that is parsed when the
  opening brace occurs neither in the type nor in the segments.
\<close>

theorem default_path_substitutes_type:
  assumes "instruction_type_to_file_content self ''default''
             = Some (py_join ''{instruction.type}'' segs)"
    and "\<forall>s\<in>set segs. \<not> sublist ''{instruction.type}'' s"
  shows "default_instruction_to_svg_dict parse self instr
           = (set_fills_in_color_layer parse (py_join (type instr) segs) (color instr), self)
       \<and> (instruction_type_to_file_content self (type instr) = None \<longrightarrow>
            instruction_to_svg_dict parse self instr
              = (set_fills_in_color_layer parse (py_join (type instr) segs) (color instr), self))
       \<and> (CHR ''{'' \<notin> set (type instr) \<and> (\<forall>s\<in>set segs. CHR ''{'' \<notin> set s) \<longrightarrow>
            \<not> sublist ''{instruction.type}'' (py_join (type instr) segs))"
proof -
  have "py_replace ''{instruction.type}'' (type instr) (py_join ''{instruction.type}'' segs)
          = py_join (type instr) segs"
    by (rule py_replace_join [OF _ assms(2)]) simp
  with assms(1) have d: "default_instruction_to_svg_dict parse self instr
      = (set_fills_in_color_layer parse (py_join (type instr) segs) (color instr), self)"
    by (simp add: default_instruction_to_svg_dict_def)
  have "\<not> sublist ''{instruction.type}'' (py_join (type instr) segs)"
    if "CHR ''{'' \<notin> set (type instr)" and "\<forall>s\<in>set segs. CHR ''{'' \<notin> set s"
  proof -
    from that py_join_set [of "type instr" segs]
    have "CHR ''{'' \<notin> set (py_join (type instr) segs)" by auto
    then show ?thesis by (rule not_sublist_fresh)
  qed
  with d show ?thesis by (simp add: instruction_to_svg_dict_def)
qed

theorem default_path_substitutes_type_witness:
  "default_instruction_to_svg_dict
     (parse_table [(default_doc ''knit'', default_tree ''knit'')])
     \<lparr>instruction_type_to_file_content = [''default'' \<mapsto> default_doc ''{instruction.type}'']\<rparr>
     \<lparr>type = ''knit'', color = Some ''blue''\<rparr>
   = (Inr (default_tree ''knit''),
      \<lparr>instruction_type_to_file_content = [''default'' \<mapsto> default_doc ''{instruction.type}'']\<rparr>)
   \<and> \<not> sublist ''{instruction.type}'' (default_doc ''knit'')"
proof -
  let ?tok = "''{instruction.type}''"
  let ?segs = "[''<svg><g id=\"'', ''\"/></svg>'']"
  let ?self = "\<lparr>instruction_type_to_file_content = [''default'' \<mapsto> default_doc ?tok]\<rparr>"
  let ?instr = "\<lparr>type = ''knit'', color = Some ''blue''\<rparr>"
  let ?parse = "parse_table [(default_doc ''knit'', default_tree ''knit'')]"
  have a: "instruction_type_to_file_content ?self ''default'' = Some (py_join ?tok ?segs)"
    by (simp add: default_doc_def)
  have f: "\<forall>s\<in>set ?segs. \<not> sublist ?tok s" by (simp add: sublist_code)
  have j: "py_join (type ?instr) ?segs = default_doc ''knit''" by (simp add: default_doc_def)
  have "recolor (default_tree ''knit'') ''blue'' = Inr (default_tree ''knit'')"
    by (simp add: default_tree_def recolor_defs)
  then have r: "set_fills_in_color_layer ?parse (default_doc ''knit'') (Some ''blue'')
      = Inr (default_tree ''knit'')"
    by (simp add: set_fills_in_color_layer_def parse_table_def)
  have b: "CHR ''{'' \<notin> set (type ?instr) \<and> (\<forall>s\<in>set ?segs. CHR ''{'' \<notin> set s)" by simp
  from default_path_substitutes_type [OF a f, of ?parse ?instr] j r b
  show ?thesis by simp
qed

section \<open>Rendering dispatch and the registry\<close>

text \<open>
  C4. An instruction whose type has no template, in a renderer with no entry
  \<^verbatim>\<open>default\<close>, is rendered as the empty document \<^verbatim>\<open>{"svg": ""}\<close> by both
  \<^verbatim>\<open>instruction_to_svg_dict\<close> and \<^verbatim>\<open>default_instruction_to_svg_dict\<close>, whatever
  its color and whatever the parser would do: no exception is raised.
\<close>

theorem fallback_empty_document:
  assumes "instruction_type_to_file_content self (type instr) = None"
    and "instruction_type_to_file_content self ''default'' = None"
  shows "instruction_to_svg_dict parse self instr = (Inr (XDict [(''svg'', XStr [])]), self)
       \<and> default_instruction_to_svg_dict parse self instr
           = (Inr (XDict [(''svg'', XStr [])]), self)"
  using assms by (simp add: instruction_to_svg_dict_def default_instruction_to_svg_dict_def)

theorem fallback_empty_document_witness:
  "instruction_type_to_file_content init ''knit'' = None
   \<and> instruction_type_to_file_content init ''default'' = None
   \<and> instruction_to_svg_dict (\<lambda>s. Inl ParseError) init \<lparr>type = ''knit'', color = Some ''blue''\<rparr>
       = (Inr (XDict [(''svg'', XStr [])]), init)
   \<and> default_instruction_to_svg_dict (\<lambda>s. Inl ParseError) init
         \<lparr>type = ''knit'', color = Some ''blue''\<rparr>
       = (Inr (XDict [(''svg'', XStr [])]), init)"
  using fallback_empty_document
    [of init "\<lparr>type = ''knit'', color = Some ''blue''\<rparr>" "\<lambda>s. Inl ParseError"]
  by (simp add: init_def)

text \<open>
  C5. With a template registered for its type and no color, an instruction is
  rendered as whatever the parser gives for the registered string, untouched; a second
  rendering, in the renderer the first one leaves, gives the same again.
\<close>

theorem null_color_render_is_parse:
  assumes "instruction_type_to_file_content self (type instr) = Some svg"
    and "color instr = None"
  shows "instruction_to_svg_dict parse self instr = (parse svg, self)
       \<and> (let (first, self1) = instruction_to_svg_dict parse self instr;
               (second, self2) = instruction_to_svg_dict parse self1 instr
           in first = parse svg \<and> second = parse svg \<and> first = second)"
proof -
  have "set_fills_in_color_layer parse svg None = parse svg"
    by (simp add: set_fills_in_color_layer_def split: sum.splits)
  with assms have "instruction_to_svg_dict parse self instr = (parse svg, self)"
    by (simp add: instruction_to_svg_dict_def)
  then show ?thesis by simp
qed

theorem null_color_render_is_parse_witness:
  "instruction_to_svg_dict
     (parse_table [(''<svg><g/></svg>'', XDict [(''svg'', XDict [(''g'', XNone)])])])
     \<lparr>instruction_type_to_file_content = [''knit'' \<mapsto> ''<svg><g/></svg>'']\<rparr>
     \<lparr>type = ''knit'', color = None\<rparr>
   = (Inr (XDict [(''svg'', XDict [(''g'', XNone)])]),
      \<lparr>instruction_type_to_file_content = [''knit'' \<mapsto> ''<svg><g/></svg>'']\<rparr>)"
  using null_color_render_is_parse
    [of "\<lparr>instruction_type_to_file_content = [''knit'' \<mapsto> ''<svg><g/></svg>'']\<rparr>"
        "\<lparr>type = ''knit'', color = None\<rparr>" "''<svg><g/></svg>''"
        "parse_table [(''<svg><g/></svg>'', XDict [(''svg'', XDict [(''g'', XNone)])])]"]
  by (simp add: parse_table_def)

text \<open>
  C9. Rendering never changes the registry: \<^verbatim>\<open>instruction_to_svg_dict\<close> and
  \<^verbatim>\<open>default_instruction_to_svg_dict\<close> leave the renderer as they found it,
  whether they return a tree or raise, so every stored template is the same string
  before and after. Each rendering parses the stored string afresh: what an earlier
  rendering did to its tree has no part in a later one.
\<close>

theorem render_keeps_registry:
  "snd (instruction_to_svg_dict parse self instr) = self
   \<and> snd (default_instruction_to_svg_dict parse self instr) = self
   \<and> instruction_type_to_file_content (snd (instruction_to_svg_dict parse self instr)) key
       = instruction_type_to_file_content self key
   \<and> fst (instruction_to_svg_dict parse (snd (instruction_to_svg_dict parse self instr)) later)
       = fst (instruction_to_svg_dict parse self later)"
proof -
  have d: "snd (default_instruction_to_svg_dict parse self instr) = self"
    by (simp add: default_instruction_to_svg_dict_def split: option.splits)
  then have "snd (instruction_to_svg_dict parse self instr) = self"
    by (simp add: instruction_to_svg_dict_def split: option.splits)
  with d show ?thesis by simp
qed

text \<open>
  C8. Loading a second file whose name gives the same key replaces the content
  stored by the first: the registry then holds the second content under the key, an
  instruction of that type is rendered from the second content alone, and the result
  is the one a renderer that never saw the first file gives.
\<close>

theorem registry_overwrite:
  assumes "fst (splitext (basename path1)) = key"
    and "fst (splitext (basename path2)) = key"
    and "read_file path1 = Inr a"
    and "read_file path2 = Inr b"
    and "type instr = key"
  shows "(let self1 = snd (process_loaded_object read_file self path1);
              self2 = snd (process_loaded_object read_file self1 path2)
          in instruction_type_to_file_content self2 key = Some b
           \<and> fst (instruction_to_svg_dict parse self2 instr)
               = set_fills_in_color_layer parse b (color instr)
           \<and> fst (instruction_to_svg_dict parse self2 instr)
               = fst (instruction_to_svg_dict parse
                        (snd (process_loaded_object read_file self path2)) instr))"
  using assms
  by (simp add: process_loaded_object_def instruction_to_svg_dict_def Let_def)

theorem registry_overwrite_witness:
  "fst (splitext (basename ''a/knit.svg'')) = ''knit''
   \<and> fst (splitext (basename ''b/knit.svg'')) = ''knit''
   \<and> instruction_type_to_file_content
       (snd (process_loaded_object (read_table [(''a/knit.svg'', ''A''), (''b/knit.svg'', ''B'')])
          (snd (process_loaded_object
             (read_table [(''a/knit.svg'', ''A''), (''b/knit.svg'', ''B'')]) init ''a/knit.svg''))
          ''b/knit.svg'')) ''knit'' = Some ''B''"
proof -
  have k1: "fst (splitext (basename ''a/knit.svg'')) = ''knit''"
    by (simp add: splitext_def basename_def rfind_def Let_def)
  have k2: "fst (splitext (basename ''b/knit.svg'')) = ''knit''"
    by (simp add: splitext_def basename_def rfind_def Let_def)
  have r1: "read_table [(''a/knit.svg'', ''A''), (''b/knit.svg'', ''B'')] ''a/knit.svg'' = Inr ''A''"
    by (simp add: read_table_def)
  have r2: "read_table [(''a/knit.svg'', ''A''), (''b/knit.svg'', ''B'')] ''b/knit.svg'' = Inr ''B''"
    by (simp add: read_table_def)
  have t: "type \<lparr>type = ''knit'', color = None\<rparr> = ''knit''" by simp
  show ?thesis
    using registry_overwrite [OF k1 k2 r1 r2 t, of init "\<lambda>s. Inl ParseError"] k1 k2
    by (simp add: Let_def)
qed

end
